theory Spec2Isabelle
  imports Complex_Main "HOL-Library.AList"
begin

section \<open>Dates, timestamps and strings\<close>

text \<open>
  Every \<^verbatim>\<open>time.Time\<close> that the schedulers store in a \<^verbatim>\<open>Task\<close> or a \<^verbatim>\<open>CoinState\<close> has
  passed through \<^verbatim>\<open>dateOnlyUTC\<close> (or through \<^verbatim>\<open>AddDate(0, 0, n)\<close> applied to such a value):
  \<^verbatim>\<open>yesterdayUTC\<close>, \<^verbatim>\<open>mustParseDate\<close>, \<^verbatim>\<open>getMinDate\<close> and \<^verbatim>\<open>getMaxDate\<close> all return a UTC
  midnight. Such a value is modelled by its day number, the count of days since
  1970-01-01 UTC. On day numbers \<^verbatim>\<open>dateOnlyUTC\<close> is the identity, \<^verbatim>\<open>AddDate(0, 0, n)\<close> adds
  \<open>n\<close>, and \<^verbatim>\<open>Before\<close>, \<^verbatim>\<open>After\<close>, \<^verbatim>\<open>Equal\<close> are \<open><\<close>, \<open>>\<close>, \<open>=\<close>. The text \<^verbatim>\<open>"2006-01-02"\<close> of a
  day (\<^verbatim>\<open>formatDate\<close>, and the day keys of the worker's maps) is modelled by the same day
  number: for years 0000 to 9999 the order of these texts is the order of the days.
  A sample's instant is a count of milliseconds since the epoch, as \<^verbatim>\<open>time.UnixMilli\<close> reads it.
  Go's \<^verbatim>\<open>int\<close> counters are modelled by \<open>int\<close>: they move by one per result and never approach
  the 64-bit range.
\<close>

type_synonym day = int
type_synonym millis = int

definition dateOnlyUTC :: "day \<Rightarrow> day" where
  "dateOnlyUTC d = d"

definition AddDate :: "day \<Rightarrow> int \<Rightarrow> day" where
  "AddDate d n = d + n"

definition day_of :: "millis \<Rightarrow> day" where
  "day_of ms = ms div 86400000"

definition daysInclusive :: "day \<Rightarrow> day \<Rightarrow> day list" where
  "daysInclusive from to =
     (let f = dateOnlyUTC from; t = dateOnlyUTC to
      in if t < f then [] else [f..t])"

text \<open>
  \<^verbatim>\<open>strings.TrimSpace\<close>, \<^verbatim>\<open>strings.ToUpper\<close> and \<^verbatim>\<open>strings.ToLower\<close> on ASCII text (Go's versions
  also know the Unicode spaces and letters beyond ASCII).
\<close>

definition isSpace :: "char \<Rightarrow> bool" where
  "isSpace c = (c \<in> set [CHR '' '', CHR 0x09, CHR 0x0A, CHR 0x0B, CHR 0x0C, CHR 0x0D])"

definition TrimSpace :: "string \<Rightarrow> string" where
  "TrimSpace s = rev (dropWhile isSpace (rev (dropWhile isSpace s)))"

definition lowerLetters :: string where
  "lowerLetters = ''abcdefghijklmnopqrstuvwxyz''"

definition upperLetters :: string where
  "upperLetters = ''ABCDEFGHIJKLMNOPQRSTUVWXYZ''"

definition ToUpper :: "string \<Rightarrow> string" where
  "ToUpper s =
     map (\<lambda>c. case map_of (zip lowerLetters upperLetters) c of Some u \<Rightarrow> u | None \<Rightarrow> c) s"

definition ToLower :: "string \<Rightarrow> string" where
  "ToLower s =
     map (\<lambda>c. case map_of (zip upperLetters lowerLetters) c of Some l \<Rightarrow> l | None \<Rightarrow> c) s"

section \<open>Data model\<close>

text \<open>
  \<^verbatim>\<open>float64\<close> values are modelled by \<open>real\<close> (no rounding, no NaN, no infinities): the worker
  only copies them, apart from the conversion of a sample's first entry to \<^verbatim>\<open>int64\<close>.
\<close>

record DailyPoint =
  ID :: string
  Symbol :: string
  VsCurrency :: string
  Timestamp :: millis
  Price :: real
  MarketCap :: real
  Volume :: real

datatype TaskPhase = PhaseBackfill | PhaseIncremental

record Coin =
  ID :: string
  Symbol :: string
  Name :: string

record Task =
  CoinID :: string
  Symbol :: string
  From :: day
  To :: day
  Retry :: int
  Phase :: TaskPhase

record TaskResult =
  Task :: Task
  Inserted :: int
  APIDays :: int
  Empty :: bool
  HTTPStatus :: int
  Err :: string
  MissingDates :: "day list"
  ActiveNow :: bool

record CoinState =
  SearchEnd :: day
  SearchEmpty :: int
  SeenData :: bool
  ConsecutiveEmpty :: int
  Done :: bool

text \<open>
  The fields of \<^verbatim>\<open>Config\<close> that the modelled functions read. \<^verbatim>\<open>CoinIDsFilter\<close> is a
  \<^verbatim>\<open>map[string]bool\<close> that may be nil; a key the map lacks reads as false.
\<close>

record Config =
  VsCurrency :: string
  CoinIDsFilter :: "(string \<rightharpoonup> bool) option"
  StartDate :: day
  EmptyStopBlocks :: int
  MaxSearchBlocks :: int
  MaxRetriesPerBlock :: int

definition filterRejects :: "Config \<Rightarrow> string \<Rightarrow> bool" where
  "filterRejects cfg k =
     (case CoinIDsFilter cfg of
        None \<Rightarrow> False
      | Some m \<Rightarrow> \<not> (case m k of Some b \<Rightarrow> b | None \<Rightarrow> False))"

section \<open>The backfill scheduler (scheduler.go)\<close>

text \<open>
  \<^verbatim>\<open>makeTaskFixedWindow\<close> returns \<^verbatim>\<open>(Task, bool)\<close>; the pair \<^verbatim>\<open>(Task{}, false)\<close> is \<open>None\<close> here.
\<close>

definition makeTaskFixedWindow :: "string \<Rightarrow> string \<Rightarrow> day \<Rightarrow> day \<Rightarrow> Task option" where
  "makeTaskFixedWindow coinID symbol end0 startLimit =
     (let e = dateOnlyUTC end0 in
      if e < startLimit then None
      else
        let start = AddDate e (- 99);
            start = (if start < startLimit then startLimit else start)
        in Some \<lparr>CoinID = coinID, Task.Symbol = symbol, From = start, To = e,
                  Retry = 0, Phase = PhaseBackfill\<rparr>)"

text \<open>
  The variables of one round of \<^verbatim>\<open>RunBackfill\<close>: the pending queue, the counters, and the two
  maps \<^verbatim>\<open>states\<close> and \<^verbatim>\<open>active\<close> that live for the whole run. Logging is left out.
\<close>

record Sched =
  pending :: "Task list"
  inFlight :: int
  doneTasks :: int
  sumInserted :: int
  sumErrors :: int
  sumEmpty :: int
  sumRetried :: int
  sumMissingDay :: int
  states :: "string \<rightharpoonup> CoinState"
  active :: "string \<rightharpoonup> Coin"

definition blockHasData :: "TaskResult \<Rightarrow> bool" where
  "blockHasData res = (Err res = [] \<and> \<not> Empty res \<and> APIDays res > 0)"

text \<open>The update of one entity's \<^verbatim>\<open>CoinState\<close> from a terminal result (lines 224 to 283).\<close>

definition updateCoinState :: "Config \<Rightarrow> TaskResult \<Rightarrow> CoinState \<Rightarrow> CoinState" where
  "updateCoinState cfg res st0 =
     (let st1 = (if blockHasData res
                 then st0\<lparr>SeenData := True, SearchEmpty := 0, ConsecutiveEmpty := 0\<rparr>
                 else if SeenData st0
                 then st0\<lparr>ConsecutiveEmpty := ConsecutiveEmpty st0 + 1\<rparr>
                 else st0\<lparr>SearchEmpty := SearchEmpty st0 + 1,
                          SearchEnd := dateOnlyUTC (AddDate (From (Task res)) (- 1))\<rparr>);
          st2 = (if SeenData st1 \<and> ConsecutiveEmpty st1 \<ge> EmptyStopBlocks cfg
                 then st1\<lparr>Done := True\<rparr> else st1);
          st3 = (if \<not> SeenData st2 \<and> SearchEmpty st2 \<ge> MaxSearchBlocks cfg
                 then st2\<lparr>Done := True\<rparr> else st2)
      in st3)"

text \<open>
  The branch \<^verbatim>\<open>case res := <-results\<close> of the drain loop (lines 176 to 297): the scheduler's
  variables after one result has been received.
\<close>

definition backfillOnResult :: "Config \<Rightarrow> Sched \<Rightarrow> TaskResult \<Rightarrow> Sched" where
  "backfillOnResult cfg s0 res =
     (let s1 = s0\<lparr>inFlight := inFlight s0 - 1, doneTasks := doneTasks s0 + 1\<rparr> in
      case states s1 (CoinID (Task res)) of
        None \<Rightarrow> s1
      | Some st \<Rightarrow>
          if Done st then s1
          else if length (MissingDates res) > 0 \<and> Retry (Task res) < MaxRetriesPerBlock cfg
          then
            let rt = (Task res)\<lparr>Retry := Retry (Task res) + 1\<rparr>
            in s1\<lparr>pending := rt # pending s1,
                   sumRetried := sumRetried s1 + 1,
                   sumMissingDay := sumMissingDay s1 + int (length (MissingDates res))\<rparr>
          else
            let s2 = s1\<lparr>sumInserted := sumInserted s1 + Inserted res\<rparr>;
                s3 = (if Err res \<noteq> [] then s2\<lparr>sumErrors := sumErrors s2 + 1\<rparr> else s2);
                s4 = (if Empty res then s3\<lparr>sumEmpty := sumEmpty s3 + 1\<rparr> else s3);
                s5 = (if ActiveNow res
                      then s4\<lparr>active := (active s4)(CoinID (Task res) \<mapsto>
                                 \<lparr>Coin.ID = CoinID (Task res),
                                  Coin.Symbol = ToLower (Task.Symbol (Task res)),
                                  Name = []\<rparr>)\<rparr>
                      else s4)
            in s5\<lparr>states := (states s5)(CoinID (Task res) \<mapsto> updateCoinState cfg res st)\<rparr>)"

text \<open>
  The inner \<^verbatim>\<open>select\<close> when the task channel accepts the head of the queue (lines 311 to 313).
\<close>

definition dispatchNext :: "Sched \<Rightarrow> Sched" where
  "dispatchNext s =
     (case pending s of
        [] \<Rightarrow> s
      | t # ts \<Rightarrow> s\<lparr>pending := ts, inFlight := inFlight s + 1\<rparr>)"

text \<open>
  The end date of an entity's window in a round (lines 120 to 131). \<open>minD\<close> is the answer of
  \<^verbatim>\<open>getMinDate\<close>: \<open>Some m\<close> when the query succeeded and the store has a day for the entity.
\<close>

definition windowEnd :: "nat \<Rightarrow> day \<Rightarrow> day option \<Rightarrow> CoinState \<Rightarrow> day" where
  "windowEnd rnd yday minD st =
     (if rnd = 0 then yday
      else case minD of
             Some m \<Rightarrow> dateOnlyUTC (AddDate m (- 1))
           | None \<Rightarrow> SearchEnd st)"


text \<open>
  The rounds \<open>0, \<dots>, n - 1\<close> of an entity for which the store never has a day
  (\<^verbatim>\<open>getMinDate\<close> finds none), from the state the run creates for it (line 86).
\<close>

definition initialCoinState :: "day \<Rightarrow> CoinState" where
  "initialCoinState yday =
     \<lparr>SearchEnd = yday, SearchEmpty = 0, SeenData = False, ConsecutiveEmpty = 0, Done = False\<rparr>"


text \<open>
  The scheduling loop of a round (lines 110 to 147). \<open>scheduleCoin\<close> is its body for one key
  of \<^verbatim>\<open>states\<close>, on the pair of the map and the pending queue; \<open>keys\<close> lists the keys in
  the order the \<^verbatim>\<open>range\<close> visits them, \<open>coinSymbolByID\<close> is the map of that name, and
  \<open>minDate\<close> gives the answer of \<^verbatim>\<open>getMinDate\<close> for each entity.
\<close>

definition scheduleCoin ::
  "Config \<Rightarrow> nat \<Rightarrow> day \<Rightarrow> (string \<rightharpoonup> string) \<Rightarrow> (string \<rightharpoonup> day)
   \<Rightarrow> (string \<rightharpoonup> CoinState) \<times> Task list \<Rightarrow> string \<Rightarrow> (string \<rightharpoonup> CoinState) \<times> Task list"
where
  "scheduleCoin cfg rnd yday coinSymbolByID minDate acc coinID =
     (case fst acc coinID of
        None \<Rightarrow> acc
      | Some st \<Rightarrow>
          if Done st then acc
          else
            let e = windowEnd rnd yday (minDate coinID) st;
                sym0 = (case coinSymbolByID coinID of None \<Rightarrow> [] | Some x \<Rightarrow> x);
                symb = (if sym0 = [] then ToUpper coinID else sym0)
            in case makeTaskFixedWindow coinID symb e (StartDate cfg) of
                 None \<Rightarrow> ((fst acc)(coinID \<mapsto> st\<lparr>Done := True\<rparr>), snd acc)
               | Some t \<Rightarrow> (fst acc, snd acc @ [t]))"

definition scheduleRound ::
  "Config \<Rightarrow> nat \<Rightarrow> day \<Rightarrow> (string \<rightharpoonup> string) \<Rightarrow> (string \<rightharpoonup> day)
   \<Rightarrow> string list \<Rightarrow> (string \<rightharpoonup> CoinState) \<Rightarrow> (string \<rightharpoonup> CoinState) \<times> Task list"
where
  "scheduleRound cfg rnd yday coinSymbolByID minDate keys sts =
     foldl (scheduleCoin cfg rnd yday coinSymbolByID minDate) (sts, []) keys"

section \<open>The incremental scheduler (scheduler.go, main.go)\<close>

text \<open>The window loop of \<^verbatim>\<open>BuildIncrementalTasks\<close> (lines 384 to 398) for one entity.\<close>

function incWindows :: "string \<Rightarrow> string \<Rightarrow> day \<Rightarrow> day \<Rightarrow> Task list" where
  "incWindows coinID symb cur yday =
     (if cur > yday then []
      else
        let e0 = AddDate cur 99;
            e = (if e0 > yday then yday else e0)
        in \<lparr>CoinID = coinID, Task.Symbol = symb, From = cur, To = e,
             Retry = 0, Phase = PhaseIncremental\<rparr>
           # incWindows coinID symb (AddDate e 1) yday)"
  by pat_completeness auto
termination
  by (relation "measure (\<lambda>(coinID, symb, cur, yday). nat (yday + 1 - cur))")
     (auto simp: AddDate_def)

declare incWindows.simps [simp del]

text \<open>The body of the loop over the active coins (lines 365 to 398): the tasks of one coin.\<close>

definition coinIncTasks :: "Config \<Rightarrow> day \<Rightarrow> (string \<rightharpoonup> day) \<Rightarrow> Coin \<Rightarrow> Task list" where
  "coinIncTasks cfg yday maxDates c =
     (if filterRejects cfg (Coin.ID c) then []
      else
        let coinID = TrimSpace (Coin.ID c);
            symb = ToUpper (TrimSpace (Coin.Symbol c))
        in if coinID = [] \<or> symb = [] then []
           else case maxDates coinID of
                  None \<Rightarrow> []
                | Some maxD \<Rightarrow>
                    let start = dateOnlyUTC (AddDate maxD 1)
                    in if start > yday then [] else incWindows coinID symb start yday)"

text \<open>\<open>yday\<close> is the value of \<^verbatim>\<open>yesterdayUTC()\<close> at the call.\<close>

definition BuildIncrementalTasks ::
  "Config \<Rightarrow> day \<Rightarrow> Coin list \<Rightarrow> (string \<rightharpoonup> day) \<Rightarrow> Task list"
where
  "BuildIncrementalTasks cfg yday activeCoins maxDates =
     foldl (\<lambda>tasks c. tasks @ coinIncTasks cfg yday maxDates c) [] activeCoins"

text \<open>
  The branch \<^verbatim>\<open>case res := <-resultsCh\<close> of \<^verbatim>\<open>runIncrementalOnce\<close> (lines 211 to 230) on the
  pair of \<^verbatim>\<open>pending\<close> and \<^verbatim>\<open>inFlight\<close>.
\<close>

definition incrementalOnResult ::
  "Config \<Rightarrow> Task list \<times> int \<Rightarrow> TaskResult \<Rightarrow> Task list \<times> int"
where
  "incrementalOnResult cfg s res =
     (let pend = fst s; inFl = snd s - 1 in
      if Err res \<noteq> [] then (pend, inFl)
      else if length (MissingDates res) > 0 \<and> Retry (Task res) < MaxRetriesPerBlock cfg
      then
        let rt = (Task res)\<lparr>Retry := Retry (Task res) + 1\<rparr>
        in (rt # pend, inFl)
      else (pend, inFl))"

section \<open>The store and the remote API as the worker sees them\<close>

text \<open>
  What the store sends back for the query of \<^verbatim>\<open>getExistingDays\<close>: the query fails
  (\<^verbatim>\<open>QueryContext\<close> returns an error), a row fails to scan, or the rows are read to the end,
  where \<^verbatim>\<open>rows.Err()\<close> may still report an error.
\<close>

datatype Rows = QueryFailed string | ScanFailed string | RowsRead "day list" "string option"

text \<open>
  \<^verbatim>\<open>getExistingDays\<close> returns a \<^verbatim>\<open>map[string]struct{}\<close>, nil when it returns early, and an
  error, nil on success.
\<close>

definition getExistingDays :: "Rows \<Rightarrow> day set option \<times> string option" where
  "getExistingDays r =
     (case r of
        QueryFailed e \<Rightarrow> (None, Some e)
      | ScanFailed e \<Rightarrow> (None, Some e)
      | RowsRead ds e \<Rightarrow> (Some (set ds), e))"

text \<open>
  The answer of a healthy store to that query, from its SQL text
  (\<^verbatim>\<open>WHERE id = ? AND _date >= toDate(?) AND _date <= toDate(?) GROUP BY _date\<close>):
  \<open>stored\<close> holds the day of every row of the entity.
\<close>

definition selectExistingDays :: "day list \<Rightarrow> day \<Rightarrow> day \<Rightarrow> Rows" where
  "selectExistingDays stored from to =
     RowsRead (remdups (filter (\<lambda>d. from \<le> d \<and> d \<le> to) stored)) None"

text \<open>\<^verbatim>\<open>len(m)\<close> and \<^verbatim>\<open>_, ok := m[d]\<close> on a map that may be nil.\<close>

definition mapLen :: "day set option \<Rightarrow> nat" where
  "mapLen m = (case m of None \<Rightarrow> 0 | Some S \<Rightarrow> card S)"

definition mapHas :: "day set option \<Rightarrow> day \<Rightarrow> bool" where
  "mapHas m d = (case m of None \<Rightarrow> False | Some S \<Rightarrow> d \<in> S)"

record MarketChartRangeResp =
  Prices :: "real list list"
  MarketCaps :: "real list list"
  TotalVolumes :: "real list list"

text \<open>The four values \<^verbatim>\<open>MarketChartRange\<close> returns; \<open>err\<close> is the text of the error, if any.\<close>

record FetchReply =
  resp :: MarketChartRangeResp
  status :: int
  body :: string
  err :: "string option"

definition truncateBody :: "string \<Rightarrow> nat \<Rightarrow> string" where
  "truncateBody b n = (if length b \<le> n then b else take n b @ ''...'')"

definition isRetryableStatus :: "int \<Rightarrow> bool" where
  "isRetryableStatus code =
     (if code = 0 then True
      else code \<in> set [408, 425, 429, 500, 502, 503, 504])"

text \<open>
  \<^verbatim>\<open>insertDailyPoints\<close>: \<open>exec\<close> is the store's answer to the insert statement, the text of
  its error or \<open>None\<close>.
\<close>

definition insertDailyPoints ::
  "(DailyPoint list \<Rightarrow> string option) \<Rightarrow> DailyPoint list \<Rightarrow> int \<times> string option"
where
  "insertDailyPoints exec pts =
     (if length pts = 0 then (0, None)
      else case exec pts of
             Some e \<Rightarrow> (0, Some e)
           | None \<Rightarrow> (int (length pts), None))"

section \<open>The worker (worker.go)\<close>

record dailyAgg =
  a_ts :: millis
  a_p :: real
  a_mc :: real
  a_v :: real

datatype Kind = KindP | KindMC | KindV

text \<open>
  The conversion \<^verbatim>\<open>int64(row[0])\<close> drops the fraction; outside the range of \<^verbatim>\<open>int64\<close> Go
  leaves the result to the implementation, and the model keeps the integer.
\<close>

definition int64_of :: "real \<Rightarrow> int" where
  "int64_of x = (if 0 \<le> x then \<lfloor>x\<rfloor> else \<lceil>x\<rceil>)"

text \<open>
  The closure \<^verbatim>\<open>apply\<close> (lines 84 to 111). The map \<^verbatim>\<open>byDay\<close> is an association list with one
  entry per key; its order plays no part, the keys are sorted before use. \<open>applySample\<close> is
  what the closure does to the entry of the sample's day (lines 94 to 109), \<open>entry\<close> being
  what the map held for that day.
\<close>

definition applySample :: "Kind \<Rightarrow> millis \<Rightarrow> real \<Rightarrow> dailyAgg option \<Rightarrow> dailyAgg" where
  "applySample kind ts val entry =
     (let a0 = (case entry of
                  None \<Rightarrow> \<lparr>a_ts = ts, a_p = 0, a_mc = 0, a_v = 0\<rparr>
                | Some a \<Rightarrow> a);
          a1 = (if ts > a_ts a0 then a0\<lparr>a_ts := ts\<rparr> else a0)
      in case kind of
           KindP \<Rightarrow> a1\<lparr>a_p := val\<rparr>
         | KindMC \<Rightarrow> a1\<lparr>a_mc := val\<rparr>
         | KindV \<Rightarrow> a1\<lparr>a_v := val\<rparr>)"

definition applyRow :: "Kind \<Rightarrow> (day \<times> dailyAgg) list \<Rightarrow> real list \<Rightarrow> (day \<times> dailyAgg) list" where
  "applyRow kind byDay row =
     (if length row < 2 then byDay
      else
        let ms = int64_of (row ! 0);
            val = row ! 1;
            ts = ms;
            d = day_of ts
        in AList.update d (applySample kind ts val (map_of byDay d)) byDay)"

definition applyRows :: "Kind \<Rightarrow> (day \<times> dailyAgg) list \<Rightarrow> real list list \<Rightarrow> (day \<times> dailyAgg) list" where
  "applyRows kind byDay arr = foldl (applyRow kind) byDay arr"

text \<open>Lines 82 and 113 to 115.\<close>

definition aggregate :: "MarketChartRangeResp \<Rightarrow> (day \<times> dailyAgg) list" where
  "aggregate r =
     applyRows KindV
       (applyRows KindMC (applyRows KindP [] (Prices r)) (MarketCaps r))
       (TotalVolumes r)"

text \<open>Lines 128 to 132.\<close>

definition apiDaysOf :: "(day \<times> dailyAgg) list \<Rightarrow> day list" where
  "apiDaysOf byDay = sort (map fst byDay)"

text \<open>
  To state what the aggregation computes: the samples (instant and value) that \<^verbatim>\<open>apply\<close>
  reads from a series, in order, skipping the rows with fewer than two entries; those of
  one UTC day; and the value of the last one, or 0, the value of a field never written.
\<close>

definition samplesOf :: "real list list \<Rightarrow> (millis \<times> real) list" where
  "samplesOf arr =
     map (\<lambda>row. (int64_of (row ! 0), row ! 1)) (filter (\<lambda>row. \<not> length row < 2) arr)"

definition daySamples :: "day \<Rightarrow> real list list \<Rightarrow> (millis \<times> real) list" where
  "daySamples d arr = filter (\<lambda>s. day_of (fst s) = d) (samplesOf arr)"

definition lastValue :: "(millis \<times> real) list \<Rightarrow> real" where
  "lastValue ss = (if ss = [] then 0 else snd (last ss))"

text \<open>
  The record of a day as a function of its samples in the three series, and the step of
  \<^verbatim>\<open>apply\<close> on the entry of a day, for the proofs about the aggregation.
\<close>

definition dayRecord ::
  "(millis \<times> real) list \<Rightarrow> (millis \<times> real) list \<Rightarrow> (millis \<times> real) list \<Rightarrow> dailyAgg option"
where
  "dayRecord ps ms vs =
     (if ps @ ms @ vs = [] then None
      else Some \<lparr>a_ts = Max (fst ` set (ps @ ms @ vs)),
                 a_p = lastValue ps, a_mc = lastValue ms, a_v = lastValue vs\<rparr>)"

definition sampleStep :: "Kind \<Rightarrow> dailyAgg option \<Rightarrow> millis \<times> real \<Rightarrow> dailyAgg option" where
  "sampleStep k entry s = Some (applySample k (fst s) (snd s) entry)"

text \<open>
  The fetch loop (lines 53 to 69) from attempt \<open>attempt\<close> on: \<open>fetch a\<close> is what
  \<^verbatim>\<open>MarketChartRange\<close> returns at attempt \<open>a\<close>, \<open>lastReply\<close> holds the four variables
  \<^verbatim>\<open>resp\<close>, \<^verbatim>\<open>status\<close>, \<^verbatim>\<open>lastBody\<close>, \<^verbatim>\<open>lastErr\<close>, and \<open>calls\<close> counts the calls made so far. The
  sleep between attempts and the logging are left out.
\<close>

function fetchLoop ::
  "Config \<Rightarrow> (int \<Rightarrow> FetchReply) \<Rightarrow> int \<Rightarrow> FetchReply \<Rightarrow> nat \<Rightarrow> FetchReply \<times> nat"
where
  "fetchLoop cfg fetch attempt lastReply calls =
     (if attempt \<le> MaxRetriesPerBlock cfg then
        let r = fetch attempt in
        if err r = None then (r, calls + 1)
        else if \<not> isRetryableStatus (status r) then (r, calls + 1)
        else fetchLoop cfg fetch (attempt + 1) r (calls + 1)
      else (lastReply, calls))"
  by pat_completeness auto
termination
  by (relation "measure (\<lambda>(cfg, fetch, attempt, lastReply, calls).
                   nat (MaxRetriesPerBlock cfg + 1 - attempt))") auto

declare fetchLoop.simps [simp del]

definition zeroReply :: FetchReply where
  "zeroReply =
     \<lparr>resp = \<lparr>Prices = [], MarketCaps = [], TotalVolumes = []\<rparr>,
      status = 0, body = [], err = None\<rparr>"

text \<open>
  Everything \<^verbatim>\<open>handleTask\<close> reads from outside: the value of \<^verbatim>\<open>yesterdayUTC()\<close>, the store's
  answers to the three calls of \<^verbatim>\<open>getExistingDays\<close> (lines 41, 135 and 167), the API's
  answer to each attempt, and the store's answer to the insert.
\<close>

record Env =
  envYesterday :: day
  envExisting1 :: Rows
  envFetch :: "int \<Rightarrow> FetchReply"
  envExisting2 :: Rows
  envInsert :: "DailyPoint list \<Rightarrow> string option"
  envExisting3 :: Rows

text \<open>
  What \<^verbatim>\<open>handleTask\<close> does: the result it returns, how many times it called
  \<^verbatim>\<open>MarketChartRange\<close>, and the points it passed to \<^verbatim>\<open>insertDailyPoints\<close>, if it called it.
\<close>

record HandleOut =
  result :: TaskResult
  apiCalls :: nat
  insertArg :: "DailyPoint list option"

definition mkPoint :: "Config \<Rightarrow> Task \<Rightarrow> dailyAgg \<Rightarrow> DailyPoint" where
  "mkPoint cfg t a =
     \<lparr>DailyPoint.ID = CoinID t, DailyPoint.Symbol = Task.Symbol t,
      DailyPoint.VsCurrency = Config.VsCurrency cfg, Timestamp = a_ts a,
      Price = a_p a, MarketCap = a_mc a, Volume = a_v a\<rparr>"

text \<open>Lines 138 to 153.\<close>

definition toInsertOf ::
  "Config \<Rightarrow> Task \<Rightarrow> (day \<times> dailyAgg) list \<Rightarrow> day set option \<Rightarrow> DailyPoint list"
where
  "toInsertOf cfg t byDay existing =
     List.map_filter
       (\<lambda>d. if mapHas existing d then None else map_option (mkPoint cfg t) (map_of byDay d))
       (apiDaysOf byDay)"

text \<open>Lines 167 to 176.\<close>

definition missingOf :: "(day \<times> dailyAgg) list \<Rightarrow> day set option \<times> string option \<Rightarrow> day list" where
  "missingOf byDay q =
     (if snd q = None then sort (filter (\<lambda>d. \<not> mapHas (fst q) d) (apiDaysOf byDay)) else [])"

text \<open>Lines 178 to 185; \<open>apiDays\<close> is not empty there.\<close>

definition activeNowOf :: "day \<Rightarrow> Task \<Rightarrow> day list \<Rightarrow> bool" where
  "activeNowOf yday t apiDays =
     (if To t = yday \<or> To t > AddDate yday (- 2)
      then (let maxDay = last apiDays in maxDay \<ge> AddDate yday (- 2))
      else False)"

text \<open>
  \<^verbatim>\<open>handleTask\<close> in three parts, in the order of the source. \<open>handleStore\<close> is the part from
  line 128 on (diff against the store, insert, verification, liveness tag), reached with a
  map \<^verbatim>\<open>byDay\<close> that is not empty; \<open>calls\<close> is the number of calls of
  \<^verbatim>\<open>MarketChartRange\<close> made before.
\<close>

text \<open>Lines 134 to 136: the set of present days the diff uses.\<close>

definition existingForDiff :: "Env \<Rightarrow> day set option \<Rightarrow> day set option" where
  "existingForDiff env existing =
     (if existing = None then fst (getExistingDays (envExisting2 env)) else existing)"

definition handleStore ::
  "Config \<Rightarrow> Env \<Rightarrow> Task \<Rightarrow> day set option \<Rightarrow> nat \<Rightarrow> (day \<times> dailyAgg) list \<Rightarrow> HandleOut"
where
  "handleStore cfg env t existing calls byDay =
     (let apiDays = apiDaysOf byDay;
          existing2 = existingForDiff env existing;
          toInsert = toInsertOf cfg t byDay existing2;
          ins = insertDailyPoints (envInsert env) toInsert
      in
      case snd ins of
        Some e \<Rightarrow>
          \<lparr>result = \<lparr>Task = t, Inserted = 0, APIDays = int (length apiDays),
                      Empty = False, HTTPStatus = 200, Err = e,
                      MissingDates = [], ActiveNow = False\<rparr>,
           apiCalls = calls, insertArg = Some toInsert\<rparr>
      | None \<Rightarrow>
          let missing = missingOf byDay (getExistingDays (envExisting3 env));
              activeNow = activeNowOf (envYesterday env) t apiDays
          in
          \<lparr>result = \<lparr>Task = t, Inserted = fst ins, APIDays = int (length apiDays),
                      Empty = False, HTTPStatus = 200, Err = [],
                      MissingDates = missing, ActiveNow = activeNow\<rparr>,
           apiCalls = calls, insertArg = Some toInsert\<rparr>)"

text \<open>
  Lines 71 to 126: what follows the fetch loop, whose outcome \<open>fl\<close> is the last reply and the
  number of calls.
\<close>

definition handleFetched ::
  "Config \<Rightarrow> Env \<Rightarrow> Task \<Rightarrow> day set option \<Rightarrow> FetchReply \<times> nat \<Rightarrow> HandleOut"
where
  "handleFetched cfg env t existing fl =
     (let r = fst fl in
      case err r of
        Some e \<Rightarrow>
          \<lparr>result = \<lparr>Task = t, Inserted = 0, APIDays = 0, Empty = True, HTTPStatus = status r,
                      Err = e @ ''; body='' @ truncateBody (body r) 300,
                      MissingDates = [], ActiveNow = False\<rparr>,
           apiCalls = snd fl, insertArg = None\<rparr>
      | None \<Rightarrow>
          let byDay = aggregate (resp r) in
          if length byDay = 0
          then
            \<lparr>result = \<lparr>Task = t, Inserted = 0, APIDays = 0, Empty = True, HTTPStatus = 200,
                        Err = [], MissingDates = [], ActiveNow = False\<rparr>,
             apiCalls = snd fl, insertArg = None\<rparr>
          else handleStore cfg env t existing (snd fl) byDay)"

text \<open>The test of line 42 that takes the fast path.\<close>

definition fastPath :: "Env \<Rightarrow> Task \<Rightarrow> bool" where
  "fastPath env t =
     (let allDays = daysInclusive (From t) (To t);
          q1 = getExistingDays (envExisting1 env);
          existing = fst q1
      in snd q1 = None \<and> Retry t = 0 \<and> mapLen existing = length allDays \<and> length allDays > 0)"

definition handleTask :: "Config \<Rightarrow> Env \<Rightarrow> Task \<Rightarrow> HandleOut" where
  "handleTask cfg env t =
     (if fastPath env t
      then
        \<lparr>result = \<lparr>Task = t, Inserted = 0, APIDays = 0, Empty = False, HTTPStatus = 200,
                    Err = [], MissingDates = [], ActiveNow = False\<rparr>,
         apiCalls = 0, insertArg = None\<rparr>
      else
        handleFetched cfg env t (fst (getExistingDays (envExisting1 env)))
          (fetchLoop cfg (envFetch env) 0 zeroReply 0))"

section \<open>The drain loop of a backfill round with its workers\<close>

text \<open>The scheduler's variables when the drain loop of a round starts (lines 161 to 169).\<close>

definition roundStart :: "(string \<rightharpoonup> CoinState) \<times> Task list \<Rightarrow> (string \<rightharpoonup> Coin) \<Rightarrow> Sched" where
  "roundStart sp act =
     \<lparr>pending = snd sp, inFlight = 0, doneTasks = 0, sumInserted = 0, sumErrors = 0,
      sumEmpty = 0, sumRetried = 0, sumMissingDay = 0, states = fst sp, active = act\<rparr>"

text \<open>
  The configurations a round's drain loop can reach (lines 171 to 318): the scheduler's
  variables, with the tasks that were sent to the workers and whose results have not been
  received yet. The loop sends the head of the queue, or receives the result that a worker
  computed with \<^verbatim>\<open>handleTask\<close> for one of the tasks in flight, in any order.
\<close>

inductive roundReach :: "Config \<Rightarrow> Sched \<Rightarrow> Task list \<Rightarrow> bool" for cfg :: Config where
  scheduled:
    "distinct keys \<Longrightarrow>
     roundReach cfg (roundStart (scheduleRound cfg rnd yday coinSymbolByID minDate keys sts) act) []"
| dispatched:
    "roundReach cfg s fl \<Longrightarrow> pending s = t # ts \<Longrightarrow>
     roundReach cfg (dispatchNext s) (fl @ [t])"
| drained:
    "roundReach cfg s fl \<Longrightarrow> t \<in> set fl \<Longrightarrow>
     roundReach cfg (backfillOnResult cfg s (result (handleTask cfg env t))) (remove1 t fl)"

text \<open>
  The tasks of a list belong to different entities, each tracked and not done.
\<close>

definition liveTasks :: "(string \<rightharpoonup> CoinState) \<Rightarrow> Task list \<Rightarrow> bool" where
  "liveTasks sts ts =
     (distinct (map CoinID ts)
      \<and> (\<forall>t \<in> set ts. \<exists>st. sts (CoinID t) = Some st \<and> \<not> Done st))"

section \<open>Concrete inputs\<close>

text \<open>
  The default configuration of \<^verbatim>\<open>LoadConfig\<close>; day 17532 is 2018-01-01.
\<close>

definition cfgDefault :: Config where
  "cfgDefault =
     \<lparr>VsCurrency = ''usd'', CoinIDsFilter = None, StartDate = 17532,
      EmptyStopBlocks = 2, MaxSearchBlocks = 30, MaxRetriesPerBlock = 3\<rparr>"


definition taskBtc :: Task where
  "taskBtc =
     \<lparr>CoinID = ''bitcoin'', Task.Symbol = ''BTC'', From = 20401, To = 20500,
      Retry = 0, Phase = PhaseBackfill\<rparr>"

definition taskEth :: Task where
  "taskEth =
     \<lparr>CoinID = ''ethereum'', Task.Symbol = ''ETH'', From = 20401, To = 20500,
      Retry = 0, Phase = PhaseBackfill\<rparr>"

definition statesTwo :: "string \<rightharpoonup> CoinState" where
  "statesTwo =
     [''bitcoin'' \<mapsto> initialCoinState 20500, ''ethereum'' \<mapsto> initialCoinState 20500]"

definition symbolsTwo :: "string \<rightharpoonup> string" where
  "symbolsTwo = [''bitcoin'' \<mapsto> ''BTC'', ''ethereum'' \<mapsto> ''ETH'']"

definition schedTwo :: Sched where
  "schedTwo =
     \<lparr>pending = [taskEth], inFlight = 1, doneTasks = 0, sumInserted = 0, sumErrors = 0,
      sumEmpty = 0, sumRetried = 0, sumMissingDay = 0, states = statesTwo,
      active = Map.empty\<rparr>"



definition replyThreeDays :: FetchReply where
  "replyThreeDays =
     \<lparr>resp = \<lparr>Prices = [[1771027200000, 101], [1771113600000, 102], [1771200000000, 103]],
              MarketCaps = [[1771027200000, 2001], [1771113600000, 2002], [1771200000000, 2003]],
              TotalVolumes = [[1771027200000, 31], [1771113600000, 32], [1771200000000, 33]]\<rparr>,
      status = 200, body = [], err = None\<rparr>"

definition envGap :: Env where
  "envGap =
     \<lparr>envYesterday = 20500, envExisting1 = RowsRead [] None, envFetch = (\<lambda>a. replyThreeDays),
      envExisting2 = RowsRead [] None, envInsert = (\<lambda>pts. None),
      envExisting3 = RowsRead [] None\<rparr>"

definition cfgNegativeRetries :: Config where
  "cfgNegativeRetries = cfgDefault\<lparr>MaxRetriesPerBlock := - 1\<rparr>"

definition coinBtc :: Coin where
  "coinBtc = \<lparr>Coin.ID = ''bitcoin'', Coin.Symbol = ''btc'', Name = ''Bitcoin''\<rparr>"

definition coinNoSymbol :: Coin where
  "coinNoSymbol = \<lparr>Coin.ID = ''bitcoin'', Coin.Symbol = [], Name = ''Bitcoin''\<rparr>"

definition maxDatesBtc :: "string \<rightharpoonup> day" where
  "maxDatesBtc = [''bitcoin'' \<mapsto> 20250]"


definition reply503 :: FetchReply where
  "reply503 =
     \<lparr>resp = \<lparr>Prices = [], MarketCaps = [], TotalVolumes = []\<rparr>,
      status = 503, body = ''busy'', err = Some ''http 503: busy''\<rparr>"

definition reply404 :: FetchReply where
  "reply404 =
     \<lparr>resp = \<lparr>Prices = [], MarketCaps = [], TotalVolumes = []\<rparr>,
      status = 404, body = ''no coin'', err = Some ''http 404: no coin''\<rparr>"

definition envFlaky :: Env where
  "envFlaky =
     \<lparr>envYesterday = 20500, envExisting1 = RowsRead [] None,
      envFetch = (\<lambda>a. if a = 0 then reply503 else reply404),
      envExisting2 = RowsRead [] None, envInsert = (\<lambda>pts. None),
      envExisting3 = RowsRead [] None\<rparr>"

definition envBusy :: Env where
  "envBusy =
     \<lparr>envYesterday = 20500, envExisting1 = RowsRead [] None,
      envFetch = (\<lambda>a. reply503),
      envExisting2 = RowsRead [] None, envInsert = (\<lambda>pts. None),
      envExisting3 = RowsRead [] None\<rparr>"

definition replyOneDayTwice :: FetchReply where
  "replyOneDayTwice =
     \<lparr>resp = \<lparr>Prices = [[1771203600000, 10], [1771200000000, 11], [7]],
              MarketCaps = [[1771200000000, 5]],
              TotalVolumes = []\<rparr>,
      status = 200, body = [], err = None\<rparr>"


definition taskShort :: Task where
  "taskShort =
     \<lparr>CoinID = ''bitcoin'', Task.Symbol = ''BTC'', From = 20498, To = 20500,
      Retry = 0, Phase = PhaseIncremental\<rparr>"

definition taskOlder :: Task where
  "taskOlder =
     \<lparr>CoinID = ''bitcoin'', Task.Symbol = ''BTC'', From = 20399, To = 20498,
      Retry = 0, Phase = PhaseBackfill\<rparr>"

definition storedDays :: "day list" where
  "storedDays = [20497, 20498, 20499, 20500, 20500]"

definition envCovered :: Env where
  "envCovered =
     \<lparr>envYesterday = 20500, envExisting1 = selectExistingDays storedDays 20498 20500,
      envFetch = (\<lambda>a. replyThreeDays),
      envExisting2 = RowsRead [] None, envInsert = (\<lambda>pts. None),
      envExisting3 = RowsRead [] None\<rparr>"

definition envPartlyStored :: Env where
  "envPartlyStored =
     \<lparr>envYesterday = 20500, envExisting1 = RowsRead [20498] None,
      envFetch = (\<lambda>a. replyThreeDays),
      envExisting2 = RowsRead [] None, envInsert = (\<lambda>pts. None),
      envExisting3 = RowsRead [20498, 20499] None\<rparr>"

definition envVerifyDown :: Env where
  "envVerifyDown =
     \<lparr>envYesterday = 20500, envExisting1 = RowsRead [] None,
      envFetch = (\<lambda>a. replyThreeDays),
      envExisting2 = RowsRead [] None, envInsert = (\<lambda>pts. None),
      envExisting3 = QueryFailed ''read timeout''\<rparr>"

definition replyOldDay :: FetchReply where
  "replyOldDay =
     \<lparr>resp = \<lparr>Prices = [[1771027200000, 101]], MarketCaps = [[1771027200000, 2001]],
              TotalVolumes = [[1771027200000, 31]]\<rparr>,
      status = 200, body = [], err = None\<rparr>"

definition envOldDay :: Env where
  "envOldDay =
     \<lparr>envYesterday = 20500, envExisting1 = RowsRead [] None,
      envFetch = (\<lambda>a. replyOldDay),
      envExisting2 = RowsRead [] None, envInsert = (\<lambda>pts. None),
      envExisting3 = RowsRead [20498] None\<rparr>"


definition envInsertDown :: Env where
  "envInsertDown =
     \<lparr>envYesterday = 20500, envExisting1 = RowsRead [] None, envFetch = (\<lambda>a. replyThreeDays),
      envExisting2 = RowsRead [] None, envInsert = (\<lambda>pts. Some ''write failed''),
      envExisting3 = RowsRead [] None\<rparr>"

section \<open>The backfill state machine\<close>







lemma makeTaskFixedWindow_fields:
  "makeTaskFixedWindow c s e floorDay = Some t \<Longrightarrow>
     From t \<le> To t \<and> To t - From t \<le> 99 \<and> Retry t = 0 \<and> floorDay \<le> From t \<and> To t = e"
  by (auto simp add: makeTaskFixedWindow_def dateOnlyUTC_def AddDate_def Let_def
      split: if_splits)

lemma backfillOnResult_pending:
  "pending (backfillOnResult cfg s res) = pending s
   \<or> (Retry (Task res) < MaxRetriesPerBlock cfg
      \<and> pending (backfillOnResult cfg s res)
          = (Task res)\<lparr>Retry := Retry (Task res) + 1\<rparr> # pending s)"
  by (simp add: backfillOnResult_def Let_def split: option.splits)


section \<open>The windows of the incremental scheduler\<close>

lemma incWindows_empty: "yday < cur \<Longrightarrow> incWindows c s cur yday = []"
  by (subst incWindows.simps) simp

lemma incWindows_step:
  "cur \<le> yday \<Longrightarrow>
   incWindows c s cur yday =
     \<lparr>CoinID = c, Task.Symbol = s, From = cur, To = min (cur + 99) yday,
      Retry = 0, Phase = PhaseIncremental\<rparr>
     # incWindows c s (min (cur + 99) yday + 1) yday"
  by (subst incWindows.simps) (simp add: AddDate_def Let_def min_def)

lemma incWindows_induct [case_names step]:
  assumes "\<And>cur. (cur \<le> yday \<Longrightarrow> P (min (cur + 99) yday + 1)) \<Longrightarrow> P cur"
  shows "P (cur :: int)"
proof (induction "nat (yday + 1 - cur)" arbitrary: cur rule: less_induct)
  case less
  show ?case
  proof (rule assms)
    assume "cur \<le> yday"
    then have "nat (yday + 1 - (min (cur + 99) yday + 1)) < nat (yday + 1 - cur)"
      by (simp add: min_def)
    then show "P (min (cur + 99) yday + 1)" by (rule less)
  qed
qed


lemma incWindows_fields:
  "t \<in> set (incWindows c s cur yday) \<Longrightarrow>
     cur \<le> From t \<and> From t \<le> To t \<and> To t \<le> yday \<and> To t - From t \<le> 99
     \<and> Retry t = 0 \<and> CoinID t = c \<and> Task.Symbol t = s \<and> Phase t = PhaseIncremental"
proof (induction cur rule: incWindows_induct [where yday = yday])
  case (step cur)
  show ?case
  proof (cases "cur \<le> yday")
    case False
    with step.prems show ?thesis by (simp add: incWindows_empty)
  next
    case True
    from step.prems incWindows_step [OF True, of c s]
    consider "t = \<lparr>CoinID = c, Task.Symbol = s, From = cur, To = min (cur + 99) yday,
                    Retry = 0, Phase = PhaseIncremental\<rparr>"
      | "t \<in> set (incWindows c s (min (cur + 99) yday + 1) yday)"
      by auto
    then show ?thesis
    proof cases
      case 1
      with True show ?thesis by simp
    next
      case 2
      from step.IH [OF True 2] True show ?thesis by (simp add: min_def split: if_splits)
    qed
  qed
qed

lemma incWindows_hd:
  "cur \<le> yday \<Longrightarrow> incWindows c s cur yday \<noteq> [] \<and> From (hd (incWindows c s cur yday)) = cur"
  by (simp add: incWindows_step)

lemma incWindows_union:
  "(\<Union>t \<in> set (incWindows c s cur yday). {From t..To t}) = {cur..yday}"
proof (induction cur rule: incWindows_induct [where yday = yday])
  case (step cur)
  show ?case
  proof (cases "cur \<le> yday")
    case False
    then show ?thesis by (simp add: incWindows_empty)
  next
    case True
    have IH: "(\<Union>t \<in> set (incWindows c s (min (cur + 99) yday + 1) yday). {From t..To t})
                = {min (cur + 99) yday + 1..yday}"
      using step.IH True by simp
    have "{cur..min (cur + 99) yday} \<union> {min (cur + 99) yday + 1..yday} = {cur..yday}"
      using True by auto
    then show ?thesis
      by (simp add: incWindows_step [OF True] IH)
  qed
qed

lemma incWindows_successively:
  "successively (\<lambda>a b. From b = To a + 1) (incWindows c s cur yday)"
proof (induction cur rule: incWindows_induct [where yday = yday])
  case (step cur)
  show ?case
  proof (cases "cur \<le> yday")
    case False
    then show ?thesis by (simp add: incWindows_empty)
  next
    case True
    let ?e = "min (cur + 99) yday"
    have IH: "successively (\<lambda>a b. From b = To a + 1) (incWindows c s (?e + 1) yday)"
      using step.IH True by simp
    show ?thesis
    proof (cases "?e + 1 \<le> yday")
      case False
      then show ?thesis by (simp add: incWindows_step [OF True] incWindows_empty)
    next
      case next_ok: True
      from incWindows_hd [OF next_ok, of c s] obtain u us
        where us: "incWindows c s (?e + 1) yday = u # us" and u: "From u = ?e + 1"
        by (cases "incWindows c s (?e + 1) yday") auto
      show ?thesis
        using IH u by (simp add: incWindows_step [OF True] us)
    qed
  qed
qed

lemma incWindows_sorted_wrt:
  "sorted_wrt (\<lambda>a b. To a < From b) (incWindows c s cur yday)"
proof (induction cur rule: incWindows_induct [where yday = yday])
  case (step cur)
  show ?case
  proof (cases "cur \<le> yday")
    case False
    then show ?thesis by (simp add: incWindows_empty)
  next
    case True
    let ?e = "min (cur + 99) yday"
    have IH: "sorted_wrt (\<lambda>a b. To a < From b) (incWindows c s (?e + 1) yday)"
      using step.IH True by simp
    have "\<forall>t \<in> set (incWindows c s (?e + 1) yday). ?e < From t"
      using incWindows_fields [of _ c s "?e + 1" yday] by fastforce
    then show ?thesis
      using IH by (simp add: incWindows_step [OF True])
  qed
qed

lemma BuildIncrementalTasks_concat:
  "BuildIncrementalTasks cfg yday coins maxDates =
     concat (map (coinIncTasks cfg yday maxDates) coins)"
proof -
  have "foldl (\<lambda>tasks c. tasks @ coinIncTasks cfg yday maxDates c) acc coins =
          acc @ concat (map (coinIncTasks cfg yday maxDates) coins)" for acc
    by (induction coins arbitrary: acc) simp_all
  then show ?thesis by (simp add: BuildIncrementalTasks_def)
qed

lemma coinIncTasks_windows:
  assumes "\<not> filterRejects cfg (Coin.ID c)" and "TrimSpace (Coin.ID c) \<noteq> []"
    and "ToUpper (TrimSpace (Coin.Symbol c)) \<noteq> []"
    and "maxDates (TrimSpace (Coin.ID c)) = Some m" and "m < yday"
  shows "coinIncTasks cfg yday maxDates c =
           incWindows (TrimSpace (Coin.ID c)) (ToUpper (TrimSpace (Coin.Symbol c))) (m + 1) yday"
  using assms by (simp add: coinIncTasks_def Let_def dateOnlyUTC_def AddDate_def)

lemma coinIncTasks_none:
  assumes "maxDates (TrimSpace (Coin.ID c)) = None
           \<or> (\<exists>m. maxDates (TrimSpace (Coin.ID c)) = Some m \<and> yday \<le> m)"
  shows "coinIncTasks cfg yday maxDates c = []"
  using assms by (auto simp add: coinIncTasks_def Let_def dateOnlyUTC_def AddDate_def)

lemma coinIncTasks_fields:
  "t \<in> set (coinIncTasks cfg yday maxDates c) \<Longrightarrow>
     From t \<le> To t \<and> To t - From t \<le> 99 \<and> Retry t = 0"
  using incWindows_fields [of t]
  by (fastforce simp add: coinIncTasks_def Let_def split: if_splits option.splits)


lemma BuildIncrementalTasks_fields:
  "t \<in> set (BuildIncrementalTasks cfg yday coins maxDates) \<Longrightarrow>
     From t \<le> To t \<and> To t - From t \<le> 99 \<and> Retry t = 0"
  by (auto simp add: BuildIncrementalTasks_concat dest: coinIncTasks_fields)

lemma ToUpper_empty: "ToUpper s = [] \<longleftrightarrow> s = []"
  by (simp add: ToUpper_def)


section \<open>The aggregation\<close>

lemma applyRow_distinct:
  "distinct (map fst byDay) \<Longrightarrow> distinct (map fst (applyRow k byDay row))"
  by (simp add: applyRow_def Let_def distinct_update)

lemma applyRows_distinct:
  "distinct (map fst byDay) \<Longrightarrow> distinct (map fst (applyRows k byDay arr))"
  unfolding applyRows_def
  by (induction arr arbitrary: byDay) (simp_all add: applyRow_distinct)

lemma aggregate_distinct: "distinct (map fst (aggregate r))"
  by (simp add: aggregate_def applyRows_distinct)

lemma applyRow_map_of:
  "map_of (applyRow k byDay row) d =
     (if \<not> length row < 2 \<and> day_of (int64_of (row ! 0)) = d
      then sampleStep k (map_of byDay d) (int64_of (row ! 0), row ! 1)
      else map_of byDay d)"
  by (simp add: applyRow_def Let_def update_conv' sampleStep_def)

lemma daySamples_Cons:
  "daySamples d (row # arr) =
     (if \<not> length row < 2 \<and> day_of (int64_of (row ! 0)) = d
      then (int64_of (row ! 0), row ! 1) # daySamples d arr
      else daySamples d arr)"
  by (simp add: daySamples_def samplesOf_def)

lemma applyRows_map_of:
  "map_of (applyRows k byDay arr) d = foldl (sampleStep k) (map_of byDay d) (daySamples d arr)"
  unfolding applyRows_def
proof (induction arr arbitrary: byDay)
  case Nil
  show ?case by (simp add: daySamples_def samplesOf_def)
next
  case (Cons row arr)
  show ?case
    by (simp add: Cons.IH applyRow_map_of daySamples_Cons)
qed

lemma Max_snoc_sample:
  assumes "fst ` set ss' = insert x (fst ` set ss)" and "ss \<noteq> []"
  shows "Max (fst ` set ss') = max x (Max (fst ` set ss))"
  using assms by simp

lemma dayRecord_Some:
  "ps @ ms @ vs \<noteq> [] \<Longrightarrow>
   dayRecord ps ms vs =
     Some \<lparr>a_ts = Max (fst ` set (ps @ ms @ vs)),
           a_p = lastValue ps, a_mc = lastValue ms, a_v = lastValue vs\<rparr>"
  unfolding dayRecord_def by (rule if_not_P)

lemma dayRecord_None: "dayRecord [] [] [] = None"
  by (simp add: dayRecord_def)

lemma sampleStep_None:
  "sampleStep k None s =
     Some \<lparr>a_ts = fst s,
           a_p = (if k = KindP then snd s else 0),
           a_mc = (if k = KindMC then snd s else 0),
           a_v = (if k = KindV then snd s else 0)\<rparr>"
  by (cases k) (simp_all add: sampleStep_def applySample_def)

lemma sampleStep_Some:
  "sampleStep k (Some \<lparr>a_ts = m, a_p = x, a_mc = y, a_v = z\<rparr>) s =
     Some \<lparr>a_ts = max (fst s) m,
           a_p = (if k = KindP then snd s else x),
           a_mc = (if k = KindMC then snd s else y),
           a_v = (if k = KindV then snd s else z)\<rparr>"
  by (cases k) (simp_all add: sampleStep_def applySample_def max_def)

lemma lastValue_snoc: "lastValue (ss @ [s]) = snd s"
  by (simp add: lastValue_def)

lemma sampleStep_dayRecord:
  "sampleStep KindP (dayRecord ps ms vs) s = dayRecord (ps @ [s]) ms vs"
  "sampleStep KindMC (dayRecord ps ms vs) s = dayRecord ps (ms @ [s]) vs"
  "sampleStep KindV (dayRecord ps ms vs) s = dayRecord ps ms (vs @ [s])"
proof -
  have neP: "(ps @ [s]) @ ms @ vs \<noteq> []" and neM: "ps @ (ms @ [s]) @ vs \<noteq> []"
    and neV: "ps @ ms @ (vs @ [s]) \<noteq> []"
    by simp_all
  show "sampleStep KindP (dayRecord ps ms vs) s = dayRecord (ps @ [s]) ms vs"
  proof (cases "ps @ ms @ vs = []")
    case True
    then have e: "ps = []" "ms = []" "vs = []" by simp_all
    have "dayRecord ([] @ [s]) [] [] = sampleStep KindP None s"
      unfolding dayRecord_Some [OF neP [unfolded e]] sampleStep_None
      by (simp add: lastValue_def)
    then show ?thesis unfolding e dayRecord_None by simp
  next
    case False
    have "fst ` set ((ps @ [s]) @ ms @ vs) = insert (fst s) (fst ` set (ps @ ms @ vs))"
      by auto
    note mx = Max_snoc_sample [OF this False]
    show ?thesis
      unfolding dayRecord_Some [OF False] dayRecord_Some [OF neP] sampleStep_Some mx
        lastValue_snoc
      by simp
  qed
  show "sampleStep KindMC (dayRecord ps ms vs) s = dayRecord ps (ms @ [s]) vs"
  proof (cases "ps @ ms @ vs = []")
    case True
    then have e: "ps = []" "ms = []" "vs = []" by simp_all
    have "dayRecord [] ([] @ [s]) [] = sampleStep KindMC None s"
      unfolding dayRecord_Some [OF neM [unfolded e]] sampleStep_None
      by (simp add: lastValue_def)
    then show ?thesis unfolding e dayRecord_None by simp
  next
    case False
    have "fst ` set (ps @ (ms @ [s]) @ vs) = insert (fst s) (fst ` set (ps @ ms @ vs))"
      by auto
    note mx = Max_snoc_sample [OF this False]
    show ?thesis
      unfolding dayRecord_Some [OF False] dayRecord_Some [OF neM] sampleStep_Some mx
        lastValue_snoc
      by simp
  qed
  show "sampleStep KindV (dayRecord ps ms vs) s = dayRecord ps ms (vs @ [s])"
  proof (cases "ps @ ms @ vs = []")
    case True
    then have e: "ps = []" "ms = []" "vs = []" by simp_all
    have "dayRecord [] [] ([] @ [s]) = sampleStep KindV None s"
      unfolding dayRecord_Some [OF neV [unfolded e]] sampleStep_None
      by (simp add: lastValue_def)
    then show ?thesis unfolding e dayRecord_None by simp
  next
    case False
    have "fst ` set (ps @ ms @ (vs @ [s])) = insert (fst s) (fst ` set (ps @ ms @ vs))"
      by auto
    note mx = Max_snoc_sample [OF this False]
    show ?thesis
      unfolding dayRecord_Some [OF False] dayRecord_Some [OF neV] sampleStep_Some mx
        lastValue_snoc
      by simp
  qed
qed

lemma foldl_sampleStep_dayRecord:
  "foldl (sampleStep KindP) (dayRecord ps ms vs) ss = dayRecord (ps @ ss) ms vs"
  "foldl (sampleStep KindMC) (dayRecord ps ms vs) ss = dayRecord ps (ms @ ss) vs"
  "foldl (sampleStep KindV) (dayRecord ps ms vs) ss = dayRecord ps ms (vs @ ss)"
  by (induction ss rule: rev_induct) (simp_all add: sampleStep_dayRecord flip: append_assoc)

lemma aggregate_map_of:
  "map_of (aggregate r) d =
     dayRecord (daySamples d (Prices r)) (daySamples d (MarketCaps r))
       (daySamples d (TotalVolumes r))"
proof -
  have "map_of (aggregate r) d
          = foldl (sampleStep KindV)
              (foldl (sampleStep KindMC)
                 (foldl (sampleStep KindP) (dayRecord [] [] []) (daySamples d (Prices r)))
                 (daySamples d (MarketCaps r)))
              (daySamples d (TotalVolumes r))"
    by (simp add: aggregate_def applyRows_map_of dayRecord_def)
  then show ?thesis
    by (simp only: foldl_sampleStep_dayRecord append_Nil)
qed

lemma daySamples_day: "s \<in> set (daySamples d arr) \<Longrightarrow> day_of (fst s) = d"
  by (simp add: daySamples_def)

lemma aggregate_entry_day:
  assumes "map_of (aggregate r) d = Some a"
  shows "day_of (a_ts a) = d"
proof -
  let ?ss = "daySamples d (Prices r) @ daySamples d (MarketCaps r) @ daySamples d (TotalVolumes r)"
  from assms have ne: "?ss \<noteq> []" and ts: "a_ts a = Max (fst ` set ?ss)"
    by (auto simp add: aggregate_map_of dayRecord_def split: if_splits)
  have "Max (fst ` set ?ss) \<in> fst ` set ?ss"
    using ne by (intro Max_in) simp_all
  then obtain s where "s \<in> set ?ss" and "fst s = Max (fst ` set ?ss)" by force
  then show ?thesis
    using ts daySamples_day by fastforce
qed

section \<open>The fetch loop\<close>

lemma fetchLoop_stop:
  "\<not> a \<le> MaxRetriesPerBlock cfg \<Longrightarrow> fetchLoop cfg f a lastReply calls = (lastReply, calls)"
  by (subst fetchLoop.simps) simp

lemma fetchLoop_done:
  "a \<le> MaxRetriesPerBlock cfg \<Longrightarrow> err (f a) = None \<or> \<not> isRetryableStatus (status (f a)) \<Longrightarrow>
   fetchLoop cfg f a lastReply calls = (f a, calls + 1)"
  by (subst fetchLoop.simps) (auto simp add: Let_def)

lemma fetchLoop_again:
  "a \<le> MaxRetriesPerBlock cfg \<Longrightarrow> err (f a) \<noteq> None \<Longrightarrow> isRetryableStatus (status (f a)) \<Longrightarrow>
   fetchLoop cfg f a lastReply calls = fetchLoop cfg f (a + 1) (f a) (calls + 1)"
  by (subst fetchLoop.simps) (auto simp add: Let_def)

lemma fetchLoop_cases [case_names halt final retry]:
  assumes "\<not> a \<le> MaxRetriesPerBlock cfg \<Longrightarrow> P"
    and "a \<le> MaxRetriesPerBlock cfg \<Longrightarrow> err (f a) = None \<or> \<not> isRetryableStatus (status (f a)) \<Longrightarrow> P"
    and "a \<le> MaxRetriesPerBlock cfg \<Longrightarrow> err (f a) \<noteq> None \<Longrightarrow> isRetryableStatus (status (f a)) \<Longrightarrow> P"
  shows P
  using assms by blast

lemma fetchLoop_calls_mono: "calls \<le> snd (fetchLoop cfg f a lastReply calls)"
proof (induction cfg f a lastReply calls rule: fetchLoop.induct)
  case (1 cfg f a lastReply calls)
  show ?case
  proof (cases rule: fetchLoop_cases [where a = a and cfg = cfg and f = f])
    case halt
    then show ?thesis by (simp add: fetchLoop_stop)
  next
    case final
    then show ?thesis by (simp add: fetchLoop_done)
  next
    case retry
    have "calls + 1 \<le> snd (fetchLoop cfg f (a + 1) (f a) (calls + 1))"
      using "1.IH" [OF retry(1) refl] retry by simp
    then show ?thesis by (simp add: fetchLoop_again [where f = f and a = a, OF retry])
  qed
qed

lemma fetchLoop_retried:
  assumes "a \<le> k" and "int calls + (k - a) + 1 < int (snd (fetchLoop cfg f a lastReply calls))"
  shows "err (f k) \<noteq> None \<and> isRetryableStatus (status (f k)) \<and> k < MaxRetriesPerBlock cfg"
  using assms
proof (induction cfg f a lastReply calls rule: fetchLoop.induct)
  case (1 cfg f a lastReply calls)
  show ?case
  proof (cases rule: fetchLoop_cases [where a = a and cfg = cfg and f = f])
    case halt
    with "1.prems" show ?thesis by (simp add: fetchLoop_stop)
  next
    case final
    with "1.prems" show ?thesis by (simp add: fetchLoop_done)
  next
    case retry
    note eq = fetchLoop_again [where f = f and a = a and lastReply = lastReply and calls = calls, OF retry]
    show ?thesis
    proof (cases "k = a")
      case k: True
      have more: "int calls + 1 < int (snd (fetchLoop cfg f (a + 1) (f a) (calls + 1)))"
        using "1.prems" k eq by simp
      have "a < MaxRetriesPerBlock cfg"
      proof (rule ccontr)
        assume "\<not> a < MaxRetriesPerBlock cfg"
        then have "fetchLoop cfg f (a + 1) (f a) (calls + 1) = (f a, calls + 1)"
          by (intro fetchLoop_stop) simp
        with more show False by simp
      qed
      with retry k show ?thesis by simp
    next
      case False
      with "1.prems" have "a + 1 \<le> k" by simp
      moreover have "int (calls + 1) + (k - (a + 1)) + 1
                       < int (snd (fetchLoop cfg f (a + 1) (f a) (calls + 1)))"
        using "1.prems" eq by simp
      ultimately show ?thesis
        using "1.IH" [OF retry(1) refl] retry by simp
    qed
  qed
qed

lemma fetchLoop_last:
  assumes "calls < snd (fetchLoop cfg f a lastReply calls)"
  shows "fst (fetchLoop cfg f a lastReply calls)
           = f (a + int (snd (fetchLoop cfg f a lastReply calls)) - int calls - 1)"
  using assms
proof (induction cfg f a lastReply calls rule: fetchLoop.induct)
  case (1 cfg f a lastReply calls)
  show ?case
  proof (cases rule: fetchLoop_cases [where a = a and cfg = cfg and f = f])
    case halt
    with "1.prems" show ?thesis by (simp add: fetchLoop_stop)
  next
    case final
    then show ?thesis by (simp add: fetchLoop_done)
  next
    case retry
    note eq = fetchLoop_again [where f = f and a = a and lastReply = lastReply and calls = calls, OF retry]
    show ?thesis
    proof (cases "calls + 1 < snd (fetchLoop cfg f (a + 1) (f a) (calls + 1))")
      case more: True
      have "fst (fetchLoop cfg f (a + 1) (f a) (calls + 1))
              = f (a + 1 + int (snd (fetchLoop cfg f (a + 1) (f a) (calls + 1)))
                   - int (calls + 1) - 1)"
        using "1.IH" [OF retry(1) refl] retry more by simp
      then show ?thesis unfolding eq by (simp add: algebra_simps)
    next
      case False
      with fetchLoop_calls_mono [of "calls + 1" cfg f "a + 1" "f a"]
      have n: "snd (fetchLoop cfg f (a + 1) (f a) (calls + 1)) = calls + 1" by simp
      have "\<not> a + 1 \<le> MaxRetriesPerBlock cfg"
      proof
        assume le: "a + 1 \<le> MaxRetriesPerBlock cfg"
        have "calls + 1 < snd (fetchLoop cfg f (a + 1) (f a) (calls + 1))"
        proof (cases rule: fetchLoop_cases [where a = "a + 1" and cfg = cfg and f = f])
          case halt
          with le show ?thesis by simp
        next
          case final
          then show ?thesis by (simp add: fetchLoop_done)
        next
          case retry
          from fetchLoop_again [where f = f and a = "a + 1", OF retry]
            fetchLoop_calls_mono [of "calls + 1 + 1" cfg f "a + 1 + 1" "f (a + 1)"]
          show ?thesis by simp
        qed
        with n show False by simp
      qed
      then have "fetchLoop cfg f (a + 1) (f a) (calls + 1) = (f a, calls + 1)"
        by (rule fetchLoop_stop)
      then show ?thesis unfolding eq by simp
    qed
  qed
qed

section \<open>The paths of the worker\<close>

lemma handleStore_Task: "Task (result (handleStore cfg env t ex n byDay)) = t"
  by (simp add: handleStore_def Let_def split: option.splits)

lemma handleFetched_Task: "Task (result (handleFetched cfg env t ex fl)) = t"
  by (simp add: handleFetched_def handleStore_Task Let_def split: option.splits)

lemma handleTask_Task: "Task (result (handleTask cfg env t)) = t"
  by (simp add: handleTask_def handleFetched_Task)

lemma handleStore_insert_failed:
  assumes "snd (insertDailyPoints (envInsert env)
                  (toInsertOf cfg t byDay (existingForDiff env ex))) = Some e"
  shows "handleStore cfg env t ex n byDay =
           \<lparr>result = \<lparr>Task = t, Inserted = 0, APIDays = int (length (apiDaysOf byDay)),
                       Empty = False, HTTPStatus = 200, Err = e,
                       MissingDates = [], ActiveNow = False\<rparr>,
            apiCalls = n,
            insertArg = Some (toInsertOf cfg t byDay (existingForDiff env ex))\<rparr>"
  using assms by (simp add: handleStore_def Let_def)

lemma handleStore_insert_ok:
  assumes "snd (insertDailyPoints (envInsert env)
                  (toInsertOf cfg t byDay (existingForDiff env ex))) = None"
  shows "handleStore cfg env t ex n byDay =
           \<lparr>result = \<lparr>Task = t,
                       Inserted = fst (insertDailyPoints (envInsert env)
                                         (toInsertOf cfg t byDay (existingForDiff env ex))),
                       APIDays = int (length (apiDaysOf byDay)),
                       Empty = False, HTTPStatus = 200, Err = [],
                       MissingDates = missingOf byDay (getExistingDays (envExisting3 env)),
                       ActiveNow = activeNowOf (envYesterday env) t (apiDaysOf byDay)\<rparr>,
            apiCalls = n,
            insertArg = Some (toInsertOf cfg t byDay (existingForDiff env ex))\<rparr>"
  using assms by (simp add: handleStore_def Let_def)

lemma handleStore_missing_no_error:
  "MissingDates (result (handleStore cfg env t ex n byDay)) \<noteq> [] \<Longrightarrow>
   Err (result (handleStore cfg env t ex n byDay)) = []"
  by (cases "snd (insertDailyPoints (envInsert env)
                    (toInsertOf cfg t byDay (existingForDiff env ex)))")
     (simp_all add: handleStore_insert_ok handleStore_insert_failed)

lemma handleTask_missing_no_error:
  "MissingDates (result (handleTask cfg env t)) \<noteq> [] \<Longrightarrow>
   Err (result (handleTask cfg env t)) = []"
  by (simp add: handleTask_def handleFetched_def handleStore_missing_no_error Let_def
      split: if_splits option.splits)

lemma fetchLoop_first_ok:
  "0 \<le> MaxRetriesPerBlock cfg \<Longrightarrow> err (f 0) = None \<Longrightarrow> fetchLoop cfg f 0 z 0 = (f 0, 1)"
  by (subst fetchLoop.simps) simp

lemma handleTask_reaches_store:
  assumes "\<not> fastPath env t" and "fetchLoop cfg (envFetch env) 0 zeroReply 0 = (r, n)"
    and "err r = None" and "aggregate (resp r) = byDay" and "byDay \<noteq> []"
  shows "handleTask cfg env t
           = handleStore cfg env t (fst (getExistingDays (envExisting1 env))) n byDay"
  using assms by (simp add: handleTask_def handleFetched_def)


lemma incrementalOnResult_requeue:
  assumes "Err res = []" and "MissingDates res \<noteq> []"
    and "Retry (Task res) < MaxRetriesPerBlock cfg"
  shows "incrementalOnResult cfg (pend, n) res
           = ((Task res)\<lparr>Retry := Retry (Task res) + 1\<rparr> # pend, n - 1)"
  using assms by (simp add: incrementalOnResult_def Let_def)


lemma incrementalOnResult_pending:
  "fst (incrementalOnResult cfg q res) = fst q
   \<or> (Retry (Task res) < MaxRetriesPerBlock cfg
      \<and> fst (incrementalOnResult cfg q res)
          = (Task res)\<lparr>Retry := Retry (Task res) + 1\<rparr> # fst q)"
  by (simp add: incrementalOnResult_def Let_def)


lemma handleTask_fast:
  "fastPath env t \<Longrightarrow>
   handleTask cfg env t =
     \<lparr>result = \<lparr>Task = t, Inserted = 0, APIDays = 0, Empty = False, HTTPStatus = 200,
                 Err = [], MissingDates = [], ActiveNow = False\<rparr>,
      apiCalls = 0, insertArg = None\<rparr>"
  by (simp add: handleTask_def)

lemma handleTask_slow:
  "\<not> fastPath env t \<Longrightarrow>
   handleTask cfg env t =
     handleFetched cfg env t (fst (getExistingDays (envExisting1 env)))
       (fetchLoop cfg (envFetch env) 0 zeroReply 0)"
  by (simp add: handleTask_def)

lemma handleStore_apiCalls: "apiCalls (handleStore cfg env t ex n byDay) = n"
  by (simp add: handleStore_def Let_def split: option.splits)

lemma handleFetched_apiCalls: "apiCalls (handleFetched cfg env t ex fl) = snd fl"
  by (simp add: handleFetched_def handleStore_apiCalls Let_def split: option.splits)

lemma handleTask_apiCalls:
  "apiCalls (handleTask cfg env t) =
     (if fastPath env t then 0 else snd (fetchLoop cfg (envFetch env) 0 zeroReply 0))"
  by (simp add: handleTask_def handleFetched_apiCalls)

lemma handleFetched_error:
  "err (fst fl) = Some e \<Longrightarrow>
   handleFetched cfg env t ex fl =
     \<lparr>result = \<lparr>Task = t, Inserted = 0, APIDays = 0, Empty = True,
                 HTTPStatus = status (fst fl),
                 Err = e @ ''; body='' @ truncateBody (body (fst fl)) 300,
                 MissingDates = [], ActiveNow = False\<rparr>,
      apiCalls = snd fl, insertArg = None\<rparr>"
  by (simp add: handleFetched_def Let_def)

lemma isRetryableStatus_iff:
  "isRetryableStatus code \<longleftrightarrow> code \<in> {0, 408, 425, 429, 500, 502, 503, 504}"
  by (simp add: isRetryableStatus_def)


section \<open>The diff against the store and the verification\<close>

lemma apiDaysOf_set: "set (apiDaysOf byDay) = fst ` set byDay"
  by (simp add: apiDaysOf_def)

lemma apiDaysOf_sorted: "sorted (apiDaysOf byDay)"
  by (simp add: apiDaysOf_def)

lemma apiDaysOf_distinct: "distinct (map fst byDay) \<Longrightarrow> distinct (apiDaysOf byDay)"
  by (simp add: apiDaysOf_def)

lemma map_map_filter_eq_filter:
  assumes "\<forall>x \<in> set xs. (P x \<longrightarrow> (\<exists>y. f x = Some y \<and> g y = x)) \<and> (\<not> P x \<longrightarrow> f x = None)"
  shows "map g (List.map_filter f xs) = filter P xs"
  using assms by (induction xs) (auto simp add: List.map_filter_simps)

lemma toInsertOf_days:
  "map (\<lambda>pt. day_of (Timestamp pt)) (toInsertOf cfg t (aggregate r) ex)
     = filter (\<lambda>d. \<not> mapHas ex d) (apiDaysOf (aggregate r))"
  unfolding toInsertOf_def
proof (rule map_map_filter_eq_filter, intro ballI conjI impI)
  fix d assume d: "d \<in> set (apiDaysOf (aggregate r))" and n: "\<not> mapHas ex d"
  from d obtain a where a: "map_of (aggregate r) d = Some a"
    by (auto simp add: apiDaysOf_set aggregate_distinct intro: weak_map_of_SomeI)
  from aggregate_entry_day [OF a] a n
  show "\<exists>y. (if mapHas ex d then None else map_option (mkPoint cfg t) (map_of (aggregate r) d))
               = Some y \<and> day_of (Timestamp y) = d"
    by (simp add: mkPoint_def)
next
  fix d assume "\<not> \<not> mapHas ex d"
  then show "(if mapHas ex d then None else map_option (mkPoint cfg t) (map_of (aggregate r) d))
               = None"
    by simp
qed

lemma handleStore_insertArg:
  "insertArg (handleStore cfg env t ex n byDay)
     = Some (toInsertOf cfg t byDay (existingForDiff env ex))"
  by (simp add: handleStore_def Let_def split: option.splits)

lemma handleTask_insertArg:
  assumes "insertArg (handleTask cfg env t) = Some pts"
  shows "\<not> fastPath env t"
    and "err (fst (fetchLoop cfg (envFetch env) 0 zeroReply 0)) = None"
    and "aggregate (resp (fst (fetchLoop cfg (envFetch env) 0 zeroReply 0))) \<noteq> []"
    and "pts = toInsertOf cfg t (aggregate (resp (fst (fetchLoop cfg (envFetch env) 0 zeroReply 0))))
                 (existingForDiff env (fst (getExistingDays (envExisting1 env))))"
    and "handleTask cfg env t =
           handleStore cfg env t (fst (getExistingDays (envExisting1 env)))
             (snd (fetchLoop cfg (envFetch env) 0 zeroReply 0))
             (aggregate (resp (fst (fetchLoop cfg (envFetch env) 0 zeroReply 0))))"
proof -
  show nf: "\<not> fastPath env t" using assms by (auto simp add: handleTask_def)
  let ?fl = "fetchLoop cfg (envFetch env) 0 zeroReply 0"
  have hf: "insertArg (handleFetched cfg env t (fst (getExistingDays (envExisting1 env))) ?fl)
              = Some pts"
    using assms nf by (simp add: handleTask_def)
  show e: "err (fst ?fl) = None"
    using hf by (cases "err (fst ?fl)") (simp_all add: handleFetched_def Let_def)
  show ne: "aggregate (resp (fst ?fl)) \<noteq> []"
    using hf e by (auto simp add: handleFetched_def Let_def)
  show st: "handleTask cfg env t =
           handleStore cfg env t (fst (getExistingDays (envExisting1 env))) (snd ?fl)
             (aggregate (resp (fst ?fl)))"
    using nf e ne by (simp add: handleTask_def handleFetched_def Let_def)
  show "pts = toInsertOf cfg t (aggregate (resp (fst ?fl)))
                 (existingForDiff env (fst (getExistingDays (envExisting1 env))))"
    using assms unfolding st handleStore_insertArg by simp
qed

lemma sorted_filter_as_set:
  assumes "sorted xs" and "distinct xs"
  shows "sort (filter P xs) = sorted_list_of_set {x \<in> set xs. P x}"
proof (rule sorted_distinct_set_unique)
  show "sorted (sort (filter P xs))" by simp
  show "distinct (sort (filter P xs))" using assms by simp
  show "sorted (sorted_list_of_set {x \<in> set xs. P x})" by simp
  show "distinct (sorted_list_of_set {x \<in> set xs. P x})" by simp
  show "set (sort (filter P xs)) = set (sorted_list_of_set {x \<in> set xs. P x})" by simp
qed

lemma missingOf_ok:
  "missingOf (aggregate r) (Some S, None)
     = sorted_list_of_set (set (apiDaysOf (aggregate r)) - S)"
proof -
  have "{x \<in> set (apiDaysOf (aggregate r)). x \<notin> S} = set (apiDaysOf (aggregate r)) - S"
    by auto
  then show ?thesis
    using sorted_filter_as_set [OF apiDaysOf_sorted apiDaysOf_distinct [OF aggregate_distinct],
        of "\<lambda>d. d \<notin> S" r]
    by (simp add: missingOf_def mapHas_def)
qed

lemma fastPath_covered:
  assumes "Retry t = 0" and "From t \<le> To t"
    and "envExisting1 env = RowsRead ds None" and "set ds = {From t..To t}"
  shows "fastPath env t"
proof -
  have "card (set ds) = nat (To t - From t + 1)" using assms(4) by simp
  then show ?thesis
    using assms(1-3)
    by (simp add: fastPath_def getExistingDays_def mapLen_def daysInclusive_def dateOnlyUTC_def
        Let_def)
qed

lemma backfillOnResult_no_missing:
  "MissingDates res = [] \<Longrightarrow> pending (backfillOnResult cfg s res) = pending s"
  by (simp add: backfillOnResult_def Let_def split: option.splits)

lemma incrementalOnResult_no_missing:
  "MissingDates res = [] \<Longrightarrow> fst (incrementalOnResult cfg q res) = fst q"
  by (simp add: incrementalOnResult_def Let_def)

lemma last_sorted_Max:
  fixes ys :: "int list"
  assumes "sorted ys" and "ys \<noteq> []"
  shows "last ys = Max (set ys)"
proof -
  have "Max (set ys) = last ys"
  proof (rule Max_eqI)
    show "finite (set ys)" by simp
    show "last ys \<in> set ys" using assms(2) by (rule last_in_set)
    fix y assume "y \<in> set ys"
    then obtain i where i: "i < length ys" and y: "y = ys ! i"
      by (auto simp add: in_set_conv_nth)
    have "ys ! i \<le> ys ! (length ys - 1)"
      using i assms(1) by (intro sorted_nth_mono) simp_all
    with y assms(2) show "y \<le> last ys" by (simp add: last_conv_nth)
  qed
  then show ?thesis by simp
qed

lemma last_sort_Max:
  fixes xs :: "int list"
  assumes "xs \<noteq> []"
  shows "last (sort xs) = Max (set xs)"
proof -
  have "sort xs \<noteq> []" using assms by (metis length_0_conv length_sort)
  from last_sorted_Max [OF _ this] show ?thesis by simp
qed

lemma activeNowOf_iff:
  "byDay \<noteq> [] \<Longrightarrow>
   activeNowOf yday t (apiDaysOf byDay)
     \<longleftrightarrow> yday - 2 < To t \<and> yday - 2 \<le> Max (fst ` set byDay)"
  using last_sort_Max [of "map fst byDay"]
  by (auto simp add: activeNowOf_def apiDaysOf_def AddDate_def Let_def)

lemma handleFetched_no_insert:
  "insertArg (handleFetched cfg env t ex fl) = None \<Longrightarrow>
   \<not> ActiveNow (result (handleFetched cfg env t ex fl))"
  by (auto simp add: handleFetched_def handleStore_insertArg Let_def split: option.splits if_splits)



section \<open>The configurations of a backfill round\<close>

lemma makeTaskFixedWindow_CoinID:
  "makeTaskFixedWindow c s e floorDay = Some t \<Longrightarrow> CoinID t = c"
  by (auto simp add: makeTaskFixedWindow_def Let_def split: if_splits)

lemma scheduleCoin_live:
  assumes "liveTasks (fst acc) (snd acc)" and "k \<notin> CoinID ` set (snd acc)"
  shows "liveTasks (fst (scheduleCoin cfg rnd yday sy md acc k))
                   (snd (scheduleCoin cfg rnd yday sy md acc k))
       \<and> CoinID ` set (snd (scheduleCoin cfg rnd yday sy md acc k))
           \<subseteq> insert k (CoinID ` set (snd acc))"
proof (cases "fst acc k")
  case None
  with assms show ?thesis by (auto simp add: scheduleCoin_def)
next
  case (Some st)
  show ?thesis
  proof (cases "Done st")
    case True
    with Some assms show ?thesis by (auto simp add: scheduleCoin_def)
  next
    case False
    let ?sy = "if (case sy k of None \<Rightarrow> [] | Some x \<Rightarrow> x) = [] then ToUpper k
               else (case sy k of None \<Rightarrow> [] | Some x \<Rightarrow> x)"
    show ?thesis
    proof (cases "makeTaskFixedWindow k ?sy (windowEnd rnd yday (md k) st) (StartDate cfg)")
      case None
      then have eq: "scheduleCoin cfg rnd yday sy md acc k
                       = ((fst acc)(k \<mapsto> st\<lparr>Done := True\<rparr>), snd acc)"
        using Some False by (simp add: scheduleCoin_def Let_def)
      show ?thesis
        using assms unfolding eq liveTasks_def by (auto simp add: image_iff)
    next
      case (Some t)
      then have eq: "scheduleCoin cfg rnd yday sy md acc k = (fst acc, snd acc @ [t])"
        using \<open>fst acc k = Some st\<close> False by (simp add: scheduleCoin_def Let_def)
      have c: "CoinID t = k" using Some by (rule makeTaskFixedWindow_CoinID)
      show ?thesis
        using assms \<open>fst acc k = Some st\<close> False c unfolding eq liveTasks_def by auto
    qed
  qed
qed

lemma scheduleRound_fold_live:
  assumes "liveTasks (fst acc) (snd acc)" and "distinct keys"
    and "set keys \<inter> CoinID ` set (snd acc) = {}"
  shows "liveTasks (fst (foldl (scheduleCoin cfg rnd yday sy md) acc keys))
                   (snd (foldl (scheduleCoin cfg rnd yday sy md) acc keys))"
  using assms
proof (induction keys arbitrary: acc)
  case Nil
  then show ?case by simp
next
  case (Cons k keys)
  have k: "k \<notin> CoinID ` set (snd acc)" using Cons.prems(3) by auto
  note step = scheduleCoin_live [OF Cons.prems(1) k, of cfg rnd yday sy md]
  have "set keys \<inter> CoinID ` set (snd (scheduleCoin cfg rnd yday sy md acc k)) = {}"
    using step Cons.prems(2,3) by auto
  with Cons.IH [of "scheduleCoin cfg rnd yday sy md acc k"] step Cons.prems(2)
  show ?case by simp
qed

lemma scheduleRound_live:
  "distinct keys \<Longrightarrow>
   liveTasks (fst (scheduleRound cfg rnd yday sy md keys sts))
             (snd (scheduleRound cfg rnd yday sy md keys sts))"
  unfolding scheduleRound_def
  by (rule scheduleRound_fold_live) (simp_all add: liveTasks_def)

lemma liveTasks_rotate: "liveTasks sts (t # xs) \<Longrightarrow> liveTasks sts (xs @ [t])"
  by (auto simp add: liveTasks_def)

lemma liveTasks_alive:
  "liveTasks sts ts \<Longrightarrow> t \<in> set ts \<Longrightarrow> \<exists>st. sts (CoinID t) = Some st \<and> \<not> Done st"
  by (simp add: liveTasks_def)

lemma liveTasks_remove1:
  assumes live: "liveTasks sts (ps @ fl)" and t: "t \<in> set fl"
  shows "liveTasks sts (ps @ remove1 t fl)"
    and "\<forall>u \<in> set (ps @ remove1 t fl). CoinID u \<noteq> CoinID t"
proof -
  obtain fl1 fl2 where fl: "fl = fl1 @ t # fl2" and nin: "t \<notin> set fl1"
    using t by (meson split_list_first)
  then have r: "remove1 t fl = fl1 @ fl2" by (simp add: remove1_append)
  from live have d: "distinct (map CoinID (ps @ fl1 @ t # fl2))"
    and al: "\<forall>u \<in> set (ps @ fl1 @ t # fl2). \<exists>st. sts (CoinID u) = Some st \<and> \<not> Done st"
    unfolding liveTasks_def fl by simp_all
  from d have d': "distinct (map CoinID (ps @ fl1 @ fl2))"
    and nt: "CoinID t \<notin> CoinID ` set (ps @ fl1 @ fl2)"
    by auto
  from al have al': "\<forall>u \<in> set (ps @ fl1 @ fl2). \<exists>st. sts (CoinID u) = Some st \<and> \<not> Done st"
    by simp
  show "liveTasks sts (ps @ remove1 t fl)"
    unfolding r liveTasks_def using d' al' by blast
  show "\<forall>u \<in> set (ps @ remove1 t fl). CoinID u \<noteq> CoinID t"
  proof
    fix u assume "u \<in> set (ps @ remove1 t fl)"
    then have "CoinID u \<in> CoinID ` set (ps @ fl1 @ fl2)" unfolding r by (rule imageI)
    with nt show "CoinID u \<noteq> CoinID t" by metis
  qed
qed

lemma liveTasks_retry:
  assumes "liveTasks sts ts" and "\<forall>u \<in> set ts. CoinID u \<noteq> CoinID t"
    and "sts (CoinID t) = Some st" and "\<not> Done st"
  shows "liveTasks sts (t\<lparr>Retry := n\<rparr> # ts)"
  using assms by (auto simp add: liveTasks_def)

lemma liveTasks_update:
  assumes "liveTasks sts ts" and "\<forall>u \<in> set ts. CoinID u \<noteq> c"
  shows "liveTasks (sts(c \<mapsto> st')) ts"
  using assms by (simp add: liveTasks_def)

lemma backfillOnResult_requeue:
  assumes "states s (CoinID (Task res)) = Some st" and "\<not> Done st"
    and "length (MissingDates res) > 0 \<and> Retry (Task res) < MaxRetriesPerBlock cfg"
  shows "pending (backfillOnResult cfg s res)
           = (Task res)\<lparr>Retry := Retry (Task res) + 1\<rparr> # pending s"
    and "states (backfillOnResult cfg s res) = states s"
  using assms by (simp_all add: backfillOnResult_def Let_def)

lemma backfillOnResult_terminal:
  assumes "states s (CoinID (Task res)) = Some st" and "\<not> Done st"
    and "\<not> (length (MissingDates res) > 0 \<and> Retry (Task res) < MaxRetriesPerBlock cfg)"
  shows "pending (backfillOnResult cfg s res) = pending s"
    and "states (backfillOnResult cfg s res)
           = (states s)(CoinID (Task res) \<mapsto> updateCoinState cfg res st)"
  using assms by (auto simp add: backfillOnResult_def Let_def)

lemma backfillOnResult_live:
  assumes live: "liveTasks (states s) (pending s @ fl)" and t: "t \<in> set fl" and res: "Task res = t"
  shows "liveTasks (states (backfillOnResult cfg s res))
                   (pending (backfillOnResult cfg s res) @ remove1 t fl)"
proof -
  have "t \<in> set (pending s @ fl)" using t by simp
  from liveTasks_alive [OF live this]
  obtain st where st0: "states s (CoinID t) = Some st" and nd: "\<not> Done st"
    by blast
  have st: "states s (CoinID (Task res)) = Some st" using st0 res by simp
  note rm = liveTasks_remove1 [OF live t]
  show ?thesis
  proof (cases "length (MissingDates res) > 0 \<and> Retry (Task res) < MaxRetriesPerBlock cfg")
    case True
    have "liveTasks (states s) (t\<lparr>Retry := Retry t + 1\<rparr> # (pending s @ remove1 t fl))"
      by (rule liveTasks_retry [OF rm(1) rm(2) st0 nd])
    moreover have "pending (backfillOnResult cfg s res) = t\<lparr>Retry := Retry t + 1\<rparr> # pending s"
      using backfillOnResult_requeue(1) [OF st nd True] res by simp
    moreover have "states (backfillOnResult cfg s res) = states s"
      by (rule backfillOnResult_requeue(2) [OF st nd True])
    ultimately show ?thesis by simp
  next
    case False
    have "liveTasks ((states s)(CoinID t \<mapsto> updateCoinState cfg res st)) (pending s @ remove1 t fl)"
      by (rule liveTasks_update [OF rm(1) rm(2)])
    moreover have "pending (backfillOnResult cfg s res) = pending s"
      by (rule backfillOnResult_terminal(1) [OF st nd False])
    moreover have "states (backfillOnResult cfg s res)
           = (states s)(CoinID t \<mapsto> updateCoinState cfg res st)"
      using backfillOnResult_terminal(2) [OF st nd False] res by simp
    ultimately show ?thesis by simp
  qed
qed

lemma roundReach_live:
  "roundReach cfg s fl \<Longrightarrow> liveTasks (states s) (pending s @ fl)"
proof (induction rule: roundReach.induct)
  case (scheduled keys rnd yday coinSymbolByID minDate sts act)
  then show ?case by (simp add: roundStart_def scheduleRound_live)
next
  case (dispatched s fl t ts)
  from dispatched.IH have "liveTasks (states s) (t # (ts @ fl))"
    by (simp add: dispatched.hyps)
  then have "liveTasks (states s) ((ts @ fl) @ [t])" by (rule liveTasks_rotate)
  then show ?case by (simp add: dispatchNext_def dispatched.hyps)
next
  case (drained s fl t env)
  show ?case
    by (rule backfillOnResult_live [OF drained.IH drained.hyps(2)]) (rule handleTask_Task)
qed


section \<open>The concrete inputs evaluated\<close>

lemma scheduleCoin_fresh:
  assumes "sts c = Some (initialCoinState 20500)" and "sy c = Some symb" and "symb \<noteq> []"
  shows "scheduleCoin cfgDefault 0 20500 sy md (sts, pend) c =
           (sts, pend @ [\<lparr>CoinID = c, Task.Symbol = symb, From = 20401, To = 20500,
                           Retry = 0, Phase = PhaseBackfill\<rparr>])"
  using assms
  by (simp add: scheduleCoin_def initialCoinState_def windowEnd_def makeTaskFixedWindow_def
      cfgDefault_def dateOnlyUTC_def AddDate_def Let_def)

lemma scheduleRound_two:
  "scheduleRound cfgDefault 0 20500 symbolsTwo Map.empty [''bitcoin'', ''ethereum''] statesTwo
     = (statesTwo, [taskBtc, taskEth])"
proof -
  have 1: "scheduleCoin cfgDefault 0 20500 symbolsTwo Map.empty (statesTwo, []) ''bitcoin''
             = (statesTwo, [] @ [taskBtc])"
    unfolding taskBtc_def
    by (rule scheduleCoin_fresh) (simp_all add: statesTwo_def symbolsTwo_def)
  have 2: "scheduleCoin cfgDefault 0 20500 symbolsTwo Map.empty (statesTwo, [taskBtc]) ''ethereum''
             = (statesTwo, [taskBtc] @ [taskEth])"
    unfolding taskEth_def
    by (rule scheduleCoin_fresh) (simp_all add: statesTwo_def symbolsTwo_def)
  show ?thesis
    using 1 2 by (simp add: scheduleRound_def)
qed

lemma roundReach_two: "roundReach cfgDefault schedTwo [taskBtc]"
proof -
  have "roundReach cfgDefault
          (roundStart (scheduleRound cfgDefault 0 20500 symbolsTwo Map.empty
                         [''bitcoin'', ''ethereum''] statesTwo) Map.empty) []"
    by (rule roundReach.scheduled) simp
  then have "roundReach cfgDefault
               (dispatchNext (roundStart (statesTwo, [taskBtc, taskEth]) Map.empty))
               ([] @ [taskBtc])"
    unfolding scheduleRound_two by (rule roundReach.dispatched) (simp add: roundStart_def)
  moreover have "dispatchNext (roundStart (statesTwo, [taskBtc, taskEth]) Map.empty) = schedTwo"
    by (simp add: dispatchNext_def roundStart_def schedTwo_def)
  ultimately show ?thesis by simp
qed


lemma aggregate_threeDays:
  "aggregate (resp replyThreeDays) =
     [(20498, \<lparr>a_ts = 1771027200000, a_p = 101, a_mc = 2001, a_v = 31\<rparr>),
      (20499, \<lparr>a_ts = 1771113600000, a_p = 102, a_mc = 2002, a_v = 32\<rparr>),
      (20500, \<lparr>a_ts = 1771200000000, a_p = 103, a_mc = 2003, a_v = 33\<rparr>)]"
  by (simp add: replyThreeDays_def aggregate_def applyRows_def applyRow_def applySample_def int64_of_def
      day_of_def Let_def)

lemma envGap_fields:
  "envYesterday envGap = 20500" "envExisting1 envGap = RowsRead [] None"
  "envFetch envGap = (\<lambda>a. replyThreeDays)" "envExisting2 envGap = RowsRead [] None"
  "envInsert envGap = (\<lambda>pts. None)" "envExisting3 envGap = RowsRead [] None"
  by (simp_all add: envGap_def)

lemma taskBtc_fields:
  "CoinID taskBtc = ''bitcoin''" "Task.Symbol taskBtc = ''BTC''" "From taskBtc = 20401"
  "To taskBtc = 20500" "Retry taskBtc = 0" "Phase taskBtc = PhaseBackfill"
  by (simp_all add: taskBtc_def)

lemma handleTask_gap:
  "result (handleTask cfgDefault envGap taskBtc) =
     \<lparr>Task = taskBtc, Inserted = 3, APIDays = 3, Empty = False, HTTPStatus = 200, Err = [],
      MissingDates = [20498, 20499, 20500], ActiveNow = True\<rparr>"
proof -
  have fp: "\<not> fastPath envGap taskBtc"
    by (simp add: fastPath_def envGap_fields taskBtc_fields getExistingDays_def mapLen_def
        daysInclusive_def dateOnlyUTC_def Let_def)
  have fl: "fetchLoop cfgDefault (envFetch envGap) 0 zeroReply 0 = (replyThreeDays, 1)"
    by (subst fetchLoop_first_ok) (simp_all add: cfgDefault_def envGap_fields replyThreeDays_def)
  have er: "err replyThreeDays = None" by (simp add: replyThreeDays_def)
  have "handleTask cfgDefault envGap taskBtc
          = handleStore cfgDefault envGap taskBtc (fst (getExistingDays (envExisting1 envGap))) 1
              [(20498, \<lparr>a_ts = 1771027200000, a_p = 101, a_mc = 2001, a_v = 31\<rparr>),
               (20499, \<lparr>a_ts = 1771113600000, a_p = 102, a_mc = 2002, a_v = 32\<rparr>),
               (20500, \<lparr>a_ts = 1771200000000, a_p = 103, a_mc = 2003, a_v = 33\<rparr>)]"
    by (rule handleTask_reaches_store [OF fp fl er aggregate_threeDays]) simp
  then show ?thesis
    by (simp add: handleStore_def existingForDiff_def envGap_fields getExistingDays_def apiDaysOf_def
        toInsertOf_def List.map_filter_def mapHas_def insertDailyPoints_def
        missingOf_def activeNowOf_def taskBtc_fields AddDate_def Let_def)
qed

lemma TrimSpace_bitcoin: "TrimSpace ''bitcoin'' = ''bitcoin''"
  by (simp add: TrimSpace_def isSpace_def)

lemma TrimSpace_btc: "TrimSpace ''btc'' = ''btc''"
  by (simp add: TrimSpace_def isSpace_def)

lemma ToUpper_btc: "ToUpper ''btc'' = ''BTC''"
  by (simp add: ToUpper_def lowerLetters_def upperLetters_def)


lemma envFlaky_fields:
  "envExisting1 envFlaky = RowsRead [] None"
  "envFetch envFlaky = (\<lambda>a. if a = 0 then reply503 else reply404)"
  by (simp_all add: envFlaky_def)

lemma envBusy_fields:
  "envExisting1 envBusy = RowsRead [] None" "envFetch envBusy = (\<lambda>a. reply503)"
  by (simp_all add: envBusy_def)

lemma reply_errors:
  "err reply503 = Some ''http 503: busy''" "status reply503 = 503" "body reply503 = ''busy''"
  "err reply404 = Some ''http 404: no coin''" "status reply404 = 404"
  "body reply404 = ''no coin''"
  by (simp_all add: reply503_def reply404_def)

lemma not_fastPath_empty_store:
  "envExisting1 env = RowsRead [] None \<Longrightarrow> From t \<le> To t \<Longrightarrow> \<not> fastPath env t"
  by (simp add: fastPath_def getExistingDays_def mapLen_def daysInclusive_def dateOnlyUTC_def
      Let_def)

lemma fetchLoop_flaky:
  "fetchLoop cfgDefault (envFetch envFlaky) 0 zeroReply 0 = (reply404, 2)"
proof -
  have m: "MaxRetriesPerBlock cfgDefault = 3" by (simp add: cfgDefault_def)
  have "fetchLoop cfgDefault (envFetch envFlaky) 0 zeroReply 0
          = fetchLoop cfgDefault (envFetch envFlaky) (0 + 1) (envFetch envFlaky 0) (0 + 1)"
    by (rule fetchLoop_again)
       (simp_all add: m envFlaky_fields reply_errors isRetryableStatus_def)
  also have "\<dots> = (envFetch envFlaky (0 + 1), 0 + 1 + 1)"
    by (rule fetchLoop_done)
       (simp_all add: m envFlaky_fields reply_errors isRetryableStatus_def)
  finally show ?thesis by (simp add: envFlaky_fields)
qed

lemma fetchLoop_busy:
  "fetchLoop cfgDefault (envFetch envBusy) 0 zeroReply 0 = (reply503, 4)"
proof -
  have m: "MaxRetriesPerBlock cfgDefault = 3" by (simp add: cfgDefault_def)
  have step: "fetchLoop cfgDefault (envFetch envBusy) a l c
                = fetchLoop cfgDefault (envFetch envBusy) (a + 1) reply503 (Suc c)"
    if "a \<le> 3" for a l c
    using fetchLoop_again [where f = "envFetch envBusy" and a = a and cfg = cfgDefault
        and lastReply = l and calls = c] that
    by (simp add: m envBusy_fields reply_errors isRetryableStatus_def)
  have "fetchLoop cfgDefault (envFetch envBusy) 0 zeroReply 0
          = fetchLoop cfgDefault (envFetch envBusy) 1 reply503 (Suc 0)"
    using step [of 0 zeroReply 0] by simp
  also have "\<dots> = fetchLoop cfgDefault (envFetch envBusy) 2 reply503 (Suc (Suc 0))"
    using step [of 1 reply503 "Suc 0"] by simp
  also have "\<dots> = fetchLoop cfgDefault (envFetch envBusy) 3 reply503 (Suc (Suc (Suc 0)))"
    using step [of 2 reply503 "Suc (Suc 0)"] by simp
  also have "\<dots> = fetchLoop cfgDefault (envFetch envBusy) 4 reply503 (Suc (Suc (Suc (Suc 0))))"
    using step [of 3 reply503 "Suc (Suc (Suc 0))"] by simp
  also have "\<dots> = (reply503, Suc (Suc (Suc (Suc 0))))"
    by (rule fetchLoop_stop) (simp add: m)
  finally show ?thesis by (simp add: eval_nat_numeral)
qed


lemma aggregate_oldDay:
  "aggregate (resp replyOldDay) =
     [(20498, \<lparr>a_ts = 1771027200000, a_p = 101, a_mc = 2001, a_v = 31\<rparr>)]"
  by (simp add: replyOldDay_def aggregate_def applyRows_def applyRow_def applySample_def
      int64_of_def day_of_def Let_def)

lemma env_fields:
  "envYesterday envPartlyStored = 20500" "envExisting1 envPartlyStored = RowsRead [20498] None"
  "envFetch envPartlyStored = (\<lambda>a. replyThreeDays)"
  "envInsert envPartlyStored = (\<lambda>pts. None)"
  "envExisting3 envPartlyStored = RowsRead [20498, 20499] None"
  "envYesterday envVerifyDown = 20500" "envExisting1 envVerifyDown = RowsRead [] None"
  "envFetch envVerifyDown = (\<lambda>a. replyThreeDays)"
  "envInsert envVerifyDown = (\<lambda>pts. None)"
  "envExisting3 envVerifyDown = QueryFailed ''read timeout''"
  "envYesterday envOldDay = 20500" "envExisting1 envOldDay = RowsRead [] None"
  "envFetch envOldDay = (\<lambda>a. replyOldDay)"
  "envInsert envOldDay = (\<lambda>pts. None)"
  "envExisting3 envOldDay = RowsRead [20498] None"
  "envExisting1 envCovered = selectExistingDays storedDays 20498 20500"
  by (simp_all add: envPartlyStored_def envVerifyDown_def envOldDay_def envCovered_def)

lemma task_fields:
  "CoinID taskOlder = ''bitcoin''" "Task.Symbol taskOlder = ''BTC''" "From taskOlder = 20399"
  "To taskOlder = 20498" "Retry taskOlder = 0"
  "CoinID taskShort = ''bitcoin''" "From taskShort = 20498" "To taskShort = 20500"
  "Retry taskShort = 0"
  by (simp_all add: taskOlder_def taskShort_def)

lemma not_fastPath_short_reply:
  "envExisting1 env = RowsRead ds None \<Longrightarrow> length ds < 100 \<Longrightarrow> To t - From t = 99 \<Longrightarrow>
   \<not> fastPath env t"
proof -
  assume a: "envExisting1 env = RowsRead ds None" "length ds < 100" "To t - From t = 99"
  have "card (set ds) \<le> length ds" by (rule card_length)
  with a show ?thesis
    by (simp add: fastPath_def getExistingDays_def mapLen_def daysInclusive_def dateOnlyUTC_def
        Let_def)
qed

lemma fetch_constant_ok:
  assumes "envFetch env = (\<lambda>a. r)" and "err r = None"
  shows "fetchLoop cfgDefault (envFetch env) 0 zeroReply 0 = (r, 1)"
  using fetchLoop_first_ok [of cfgDefault "envFetch env" zeroReply] assms
  by (simp add: cfgDefault_def)

lemma reply_ok: "err replyThreeDays = None" "err replyOldDay = None"
  by (simp_all add: replyThreeDays_def replyOldDay_def)

lemma cfgDefault_currency: "Config.VsCurrency cfgDefault = ''usd''"
  by (simp add: cfgDefault_def)

lemma handleTask_partlyStored:
  "handleTask cfgDefault envPartlyStored taskBtc =
     \<lparr>result = \<lparr>Task = taskBtc, Inserted = 2, APIDays = 3, Empty = False, HTTPStatus = 200,
                 Err = [], MissingDates = [20500], ActiveNow = True\<rparr>,
      apiCalls = 1,
      insertArg = Some
        [\<lparr>DailyPoint.ID = ''bitcoin'', DailyPoint.Symbol = ''BTC'',
          DailyPoint.VsCurrency = ''usd'', Timestamp = 1771113600000,
          Price = 102, MarketCap = 2002, Volume = 32\<rparr>,
         \<lparr>DailyPoint.ID = ''bitcoin'', DailyPoint.Symbol = ''BTC'',
          DailyPoint.VsCurrency = ''usd'', Timestamp = 1771200000000,
          Price = 103, MarketCap = 2003, Volume = 33\<rparr>]\<rparr>"
proof -
  have fp: "\<not> fastPath envPartlyStored taskBtc"
    by (rule not_fastPath_short_reply [OF env_fields(2)]) (simp_all add: taskBtc_fields)
  note fl = fetch_constant_ok [OF env_fields(3) reply_ok(1)]
  have "handleTask cfgDefault envPartlyStored taskBtc
          = handleStore cfgDefault envPartlyStored taskBtc
              (fst (getExistingDays (envExisting1 envPartlyStored))) 1
              [(20498, \<lparr>a_ts = 1771027200000, a_p = 101, a_mc = 2001, a_v = 31\<rparr>),
               (20499, \<lparr>a_ts = 1771113600000, a_p = 102, a_mc = 2002, a_v = 32\<rparr>),
               (20500, \<lparr>a_ts = 1771200000000, a_p = 103, a_mc = 2003, a_v = 33\<rparr>)]"
    by (rule handleTask_reaches_store [OF fp fl reply_ok(1) aggregate_threeDays]) simp
  then show ?thesis
    by (simp add: handleStore_def existingForDiff_def env_fields getExistingDays_def
        apiDaysOf_def toInsertOf_def List.map_filter_def mapHas_def insertDailyPoints_def
        missingOf_def activeNowOf_def taskBtc_fields mkPoint_def cfgDefault_currency
        AddDate_def Let_def)
qed

lemma handleTask_verifyDown:
  "handleTask cfgDefault envVerifyDown taskBtc =
     \<lparr>result = \<lparr>Task = taskBtc, Inserted = 3, APIDays = 3, Empty = False, HTTPStatus = 200,
                 Err = [], MissingDates = [], ActiveNow = True\<rparr>,
      apiCalls = 1,
      insertArg = Some
        [\<lparr>DailyPoint.ID = ''bitcoin'', DailyPoint.Symbol = ''BTC'',
          DailyPoint.VsCurrency = ''usd'', Timestamp = 1771027200000,
          Price = 101, MarketCap = 2001, Volume = 31\<rparr>,
         \<lparr>DailyPoint.ID = ''bitcoin'', DailyPoint.Symbol = ''BTC'',
          DailyPoint.VsCurrency = ''usd'', Timestamp = 1771113600000,
          Price = 102, MarketCap = 2002, Volume = 32\<rparr>,
         \<lparr>DailyPoint.ID = ''bitcoin'', DailyPoint.Symbol = ''BTC'',
          DailyPoint.VsCurrency = ''usd'', Timestamp = 1771200000000,
          Price = 103, MarketCap = 2003, Volume = 33\<rparr>]\<rparr>"
proof -
  have fp: "\<not> fastPath envVerifyDown taskBtc"
    by (rule not_fastPath_short_reply [OF env_fields(7)]) (simp_all add: taskBtc_fields)
  note fl = fetch_constant_ok [OF env_fields(8) reply_ok(1)]
  have "handleTask cfgDefault envVerifyDown taskBtc
          = handleStore cfgDefault envVerifyDown taskBtc
              (fst (getExistingDays (envExisting1 envVerifyDown))) 1
              [(20498, \<lparr>a_ts = 1771027200000, a_p = 101, a_mc = 2001, a_v = 31\<rparr>),
               (20499, \<lparr>a_ts = 1771113600000, a_p = 102, a_mc = 2002, a_v = 32\<rparr>),
               (20500, \<lparr>a_ts = 1771200000000, a_p = 103, a_mc = 2003, a_v = 33\<rparr>)]"
    by (rule handleTask_reaches_store [OF fp fl reply_ok(1) aggregate_threeDays]) simp
  then show ?thesis
    by (simp add: handleStore_def existingForDiff_def env_fields getExistingDays_def
        apiDaysOf_def toInsertOf_def List.map_filter_def mapHas_def insertDailyPoints_def
        missingOf_def activeNowOf_def taskBtc_fields mkPoint_def cfgDefault_currency
        AddDate_def Let_def)
qed

lemma handleTask_oldDay:
  "To t - From t = 99 \<Longrightarrow>
   handleTask cfgDefault envOldDay t =
     \<lparr>result = \<lparr>Task = t, Inserted = 1, APIDays = 1, Empty = False, HTTPStatus = 200,
                 Err = [], MissingDates = [],
                 ActiveNow = (To t = 20500 \<or> 20498 < To t)\<rparr>,
      apiCalls = 1,
      insertArg = Some
        [\<lparr>DailyPoint.ID = CoinID t, DailyPoint.Symbol = Task.Symbol t,
          DailyPoint.VsCurrency = ''usd'', Timestamp = 1771027200000,
          Price = 101, MarketCap = 2001, Volume = 31\<rparr>]\<rparr>"
proof -
  assume w: "To t - From t = 99"
  have fp: "\<not> fastPath envOldDay t"
    by (rule not_fastPath_short_reply [OF env_fields(12) _ w]) simp
  note fl = fetch_constant_ok [OF env_fields(13) reply_ok(2)]
  have "handleTask cfgDefault envOldDay t
          = handleStore cfgDefault envOldDay t
              (fst (getExistingDays (envExisting1 envOldDay))) 1
              [(20498, \<lparr>a_ts = 1771027200000, a_p = 101, a_mc = 2001, a_v = 31\<rparr>)]"
    by (rule handleTask_reaches_store [OF fp fl reply_ok(2) aggregate_oldDay]) simp
  then show ?thesis
    by (simp add: handleStore_def existingForDiff_def env_fields getExistingDays_def
        apiDaysOf_def toInsertOf_def List.map_filter_def mapHas_def insertDailyPoints_def
        missingOf_def activeNowOf_def mkPoint_def cfgDefault_currency
        AddDate_def Let_def)
qed


lemma envInsertDown_fields:
  "envYesterday envInsertDown = 20500" "envExisting1 envInsertDown = RowsRead [] None"
  "envFetch envInsertDown = (\<lambda>a. replyThreeDays)"
  "envInsert envInsertDown = (\<lambda>pts. Some ''write failed'')"
  by (simp_all add: envInsertDown_def)

lemma handleTask_insertDown:
  "result (handleTask cfgDefault envInsertDown taskBtc) =
     \<lparr>Task = taskBtc, Inserted = 0, APIDays = 3, Empty = False, HTTPStatus = 200,
      Err = ''write failed'', MissingDates = [], ActiveNow = False\<rparr>"
proof -
  have fp: "\<not> fastPath envInsertDown taskBtc"
    by (rule not_fastPath_short_reply [OF envInsertDown_fields(2)]) (simp_all add: taskBtc_fields)
  note fl = fetch_constant_ok [OF envInsertDown_fields(3) reply_ok(1)]
  have "handleTask cfgDefault envInsertDown taskBtc
          = handleStore cfgDefault envInsertDown taskBtc
              (fst (getExistingDays (envExisting1 envInsertDown))) 1
              [(20498, \<lparr>a_ts = 1771027200000, a_p = 101, a_mc = 2001, a_v = 31\<rparr>),
               (20499, \<lparr>a_ts = 1771113600000, a_p = 102, a_mc = 2002, a_v = 32\<rparr>),
               (20500, \<lparr>a_ts = 1771200000000, a_p = 103, a_mc = 2003, a_v = 33\<rparr>)]"
    by (rule handleTask_reaches_store [OF fp fl reply_ok(1) aggregate_threeDays]) simp
  then show ?thesis
    by (simp add: handleStore_def existingForDiff_def envInsertDown_fields getExistingDays_def
        apiDaysOf_def toInsertOf_def List.map_filter_def mapHas_def insertDailyPoints_def
        taskBtc_fields mkPoint_def cfgDefault_currency Let_def)
qed

section \<open>The claims\<close>



text \<open>
  Claim C2. When \<^verbatim>\<open>handleTask\<close> reaches the insert, with the points \<open>pts\<close> as its argument: if
  the query for the present days before the insert succeeded (the one of line 41, or, when
  that one returned no map, the one of line 135), the days of \<open>pts\<close> are the aggregated API
  days without the days the query returned; and if the insert succeeds and the query after
  it succeeds, the result's missing dates are the sorted list of the aggregated API days
  without the days that query returned.
\<close>

theorem diff_against_store:
  assumes "insertArg (handleTask cfg env t) = Some pts"
  shows "(\<forall>ds. envExisting1 env = RowsRead ds None
            \<longrightarrow> set (map (\<lambda>pt. day_of (Timestamp pt)) pts)
                = set (apiDaysOf (aggregate (resp (fst (fetchLoop cfg (envFetch env) 0 zeroReply 0)))))
                  - set ds)
       \<and> (\<forall>ds. fst (getExistingDays (envExisting1 env)) = None
                \<and> envExisting2 env = RowsRead ds None
            \<longrightarrow> set (map (\<lambda>pt. day_of (Timestamp pt)) pts)
                = set (apiDaysOf (aggregate (resp (fst (fetchLoop cfg (envFetch env) 0 zeroReply 0)))))
                  - set ds)
       \<and> (\<forall>ds. snd (insertDailyPoints (envInsert env) pts) = None
                \<and> envExisting3 env = RowsRead ds None
            \<longrightarrow> MissingDates (result (handleTask cfg env t))
                = sorted_list_of_set
                    (set (apiDaysOf (aggregate (resp (fst (fetchLoop cfg (envFetch env) 0 zeroReply 0)))))
                     - set ds))"
proof -
  let ?r = "resp (fst (fetchLoop cfg (envFetch env) 0 zeroReply 0))"
  let ?ex = "fst (getExistingDays (envExisting1 env))"
  note path = handleTask_insertArg [OF assms]
  have days: "map (\<lambda>pt. day_of (Timestamp pt)) pts
                = filter (\<lambda>d. \<not> mapHas (existingForDiff env ?ex) d) (apiDaysOf (aggregate ?r))"
    unfolding path(4) by (rule toInsertOf_days)
  have pre: "set (map (\<lambda>pt. day_of (Timestamp pt)) pts) = set (apiDaysOf (aggregate ?r)) - set ds"
    if "envExisting1 env = RowsRead ds None" for ds
    using that unfolding days
    by (auto simp add: existingForDiff_def getExistingDays_def mapHas_def)
  have mid: "set (map (\<lambda>pt. day_of (Timestamp pt)) pts) = set (apiDaysOf (aggregate ?r)) - set ds"
    if "?ex = None \<and> envExisting2 env = RowsRead ds None" for ds
    using that unfolding days
    by (auto simp add: existingForDiff_def getExistingDays_def mapHas_def)
  have post: "MissingDates (result (handleTask cfg env t))
                = sorted_list_of_set (set (apiDaysOf (aggregate ?r)) - set ds)"
    if h: "snd (insertDailyPoints (envInsert env) pts) = None
           \<and> envExisting3 env = RowsRead ds None" for ds
  proof -
    have ok: "snd (insertDailyPoints (envInsert env)
                (toInsertOf cfg t (aggregate ?r) (existingForDiff env ?ex))) = None"
      using h path(4) by simp
    have "getExistingDays (envExisting3 env) = (Some (set ds), None)"
      using h by (simp add: getExistingDays_def)
    then show ?thesis
      unfolding path(5) handleStore_insert_ok [OF ok] by (simp add: missingOf_ok)
  qed
  from pre mid post show ?thesis by blast
qed

theorem diff_against_store_witness:
  "map (\<lambda>pt. day_of (Timestamp pt))
     (the (insertArg (handleTask cfgDefault envPartlyStored taskBtc))) = [20499, 20500]
   \<and> envExisting1 envPartlyStored = RowsRead [20498] None
   \<and> apiDaysOf (aggregate (resp (fst (fetchLoop cfgDefault (envFetch envPartlyStored) 0
         zeroReply 0)))) = [20498, 20499, 20500]
   \<and> set (map (\<lambda>pt. day_of (Timestamp pt))
        (the (insertArg (handleTask cfgDefault envPartlyStored taskBtc))))
       = set [20498, 20499, 20500] - set [20498]
   \<and> snd (insertDailyPoints (envInsert envPartlyStored)
            (the (insertArg (handleTask cfgDefault envPartlyStored taskBtc)))) = None
   \<and> envExisting3 envPartlyStored = RowsRead [20498, 20499] None
   \<and> MissingDates (result (handleTask cfgDefault envPartlyStored taskBtc))
       = sorted_list_of_set (set [20498, 20499, 20500] - set [20498, 20499])
   \<and> MissingDates (result (handleTask cfgDefault envPartlyStored taskBtc)) = [20500]"
proof -
  let ?pts = "the (insertArg (handleTask cfgDefault envPartlyStored taskBtc))"
  have ia: "insertArg (handleTask cfgDefault envPartlyStored taskBtc) = Some ?pts"
    by (simp add: handleTask_partlyStored)
  have api: "apiDaysOf (aggregate (resp (fst (fetchLoop cfgDefault (envFetch envPartlyStored) 0
         zeroReply 0)))) = [20498, 20499, 20500]"
    by (simp add: fetch_constant_ok [OF env_fields(3) reply_ok(1)] aggregate_threeDays
        apiDaysOf_def)
  have ok: "snd (insertDailyPoints (envInsert envPartlyStored) ?pts) = None"
    by (simp add: env_fields insertDailyPoints_def)
  note inst = diff_against_store [OF ia]
  from inst env_fields(2)
  have d: "set (map (\<lambda>pt. day_of (Timestamp pt)) ?pts) = set [20498, 20499, 20500] - set [20498]"
    unfolding api by blast
  from inst ok env_fields(5)
  have m: "MissingDates (result (handleTask cfgDefault envPartlyStored taskBtc))
       = sorted_list_of_set (set [20498, 20499, 20500] - set [20498, 20499])"
    unfolding api by blast
  have ev: "map (\<lambda>pt. day_of (Timestamp pt)) ?pts = [20499, 20500]"
    "MissingDates (result (handleTask cfgDefault envPartlyStored taskBtc)) = [20500]"
    by (simp_all add: handleTask_partlyStored day_of_def)
  from ev env_fields(2,5) api d ok m show ?thesis by simp
qed

text \<open>
  Claim C3. A result with missing dates whose task has a retry count below
  \<^verbatim>\<open>MaxRetriesPerBlock\<close> is requeued by both schedulers: a copy of the task with the retry
  count raised by one is put at the head of the pending queue, before every task not yet
  sent, and the backfill scheduler leaves the map of coin states as it was. For the backfill
  scheduler the result is that of any task in flight in any configuration a round can reach;
  for the incremental one it is any result of the worker.
\<close>

theorem missing_dates_requeue:
  "(\<forall>s fl t env.
      roundReach cfg s fl \<and> t \<in> set fl
      \<and> MissingDates (result (handleTask cfg env t)) \<noteq> []
      \<and> Retry t < MaxRetriesPerBlock cfg
      \<longrightarrow> pending (backfillOnResult cfg s (result (handleTask cfg env t)))
            = t\<lparr>Retry := Retry t + 1\<rparr> # pending s
        \<and> states (backfillOnResult cfg s (result (handleTask cfg env t))) = states s)
 \<and> (\<forall>pend n t env.
      MissingDates (result (handleTask cfg env t)) \<noteq> []
      \<and> Retry t < MaxRetriesPerBlock cfg
      \<longrightarrow> incrementalOnResult cfg (pend, n) (result (handleTask cfg env t))
            = (t\<lparr>Retry := Retry t + 1\<rparr> # pend, n - 1))"
proof (intro conjI allI impI)
  fix s :: Sched and fl :: "Task list" and t :: Task and env :: Env
  let ?res = "result (handleTask cfg env t)"
  assume h: "roundReach cfg s fl \<and> t \<in> set fl \<and> MissingDates ?res \<noteq> []
             \<and> Retry t < MaxRetriesPerBlock cfg"
  then have "roundReach cfg s fl" by simp
  then have "liveTasks (states s) (pending s @ fl)" by (rule roundReach_live)
  moreover have "t \<in> set (pending s @ fl)" using h by simp
  ultimately obtain st where st: "states s (CoinID t) = Some st" and nd: "\<not> Done st"
    using liveTasks_alive by blast
  have st': "states s (CoinID (Task ?res)) = Some st" using st by (simp add: handleTask_Task)
  have rq: "length (MissingDates ?res) > 0 \<and> Retry (Task ?res) < MaxRetriesPerBlock cfg"
    using h by (simp add: handleTask_Task)
  from backfillOnResult_requeue [OF st' nd rq]
  show "pending (backfillOnResult cfg s ?res) = t\<lparr>Retry := Retry t + 1\<rparr> # pending s"
    and "states (backfillOnResult cfg s ?res) = states s"
    by (simp_all add: handleTask_Task)
next
  fix pend :: "Task list" and n :: int and t :: Task and env :: Env
  let ?res = "result (handleTask cfg env t)"
  assume h: "MissingDates ?res \<noteq> [] \<and> Retry t < MaxRetriesPerBlock cfg"
  then have "Err ?res = []" by (simp add: handleTask_missing_no_error)
  from incrementalOnResult_requeue [OF this, of cfg pend n] h
  show "incrementalOnResult cfg (pend, n) ?res = (t\<lparr>Retry := Retry t + 1\<rparr> # pend, n - 1)"
    by (simp add: handleTask_Task)
qed

theorem missing_dates_requeue_witness:
  "roundReach cfgDefault schedTwo [taskBtc] \<and> taskBtc \<in> set [taskBtc]
   \<and> length (MissingDates (result (handleTask cfgDefault envGap taskBtc))) = 3
   \<and> Retry taskBtc = 0 \<and> MaxRetriesPerBlock cfgDefault = 3
   \<and> pending schedTwo = [taskEth]
   \<and> pending (backfillOnResult cfgDefault schedTwo
                 (result (handleTask cfgDefault envGap taskBtc)))
       = [taskBtc\<lparr>Retry := 1\<rparr>, taskEth]
   \<and> states (backfillOnResult cfgDefault schedTwo
                 (result (handleTask cfgDefault envGap taskBtc))) = states schedTwo
   \<and> incrementalOnResult cfgDefault ([taskEth], 1)
         (result (handleTask cfgDefault envGap taskBtc))
       = ([taskBtc\<lparr>Retry := 1\<rparr>, taskEth], 0)"
proof -
  have m: "MissingDates (result (handleTask cfgDefault envGap taskBtc)) = [20498, 20499, 20500]"
    by (simp add: handleTask_gap)
  have r: "Retry taskBtc = 0" "MaxRetriesPerBlock cfgDefault = 3" "pending schedTwo = [taskEth]"
    by (simp_all add: taskBtc_def cfgDefault_def schedTwo_def)
  have h: "MissingDates (result (handleTask cfgDefault envGap taskBtc)) \<noteq> []
           \<and> Retry taskBtc < MaxRetriesPerBlock cfgDefault"
    by (simp add: m r)
  note inst = missing_dates_requeue [of cfgDefault]
  from inst roundReach_two h
  have b: "pending (backfillOnResult cfgDefault schedTwo
                      (result (handleTask cfgDefault envGap taskBtc)))
             = taskBtc\<lparr>Retry := Retry taskBtc + 1\<rparr> # pending schedTwo
           \<and> states (backfillOnResult cfgDefault schedTwo
                      (result (handleTask cfgDefault envGap taskBtc))) = states schedTwo"
    by (metis list.set_intros(1))
  from inst h
  have i: "incrementalOnResult cfgDefault ([taskEth], 1)
             (result (handleTask cfgDefault envGap taskBtc))
           = (taskBtc\<lparr>Retry := Retry taskBtc + 1\<rparr> # [taskEth], 1 - 1)"
    by blast
  show ?thesis
    using roundReach_two m b i by (simp add: r)
qed

text \<open>
  Claim C4, as amended. Every task that \<^verbatim>\<open>makeTaskFixedWindow\<close> or \<^verbatim>\<open>BuildIncrementalTasks\<close>
  produces has \<open>From \<le> To\<close>, at most 100 days between \<open>From\<close> and \<open>To\<close>, and the retry count 0,
  which is at most \<^verbatim>\<open>MaxRetriesPerBlock\<close> exactly when \<^verbatim>\<open>MaxRetriesPerBlock\<close> is not negative;
  and when a scheduler receives a result whose task has such a window, every task it adds
  to the pending queue (the retry copy) has \<open>From \<le> To\<close>, at most 100 days between \<open>From\<close>
  and \<open>To\<close>, and a retry count of at most \<^verbatim>\<open>MaxRetriesPerBlock\<close>, whatever the configuration.
\<close>

theorem task_invariant:
  "(\<forall>c s e floorDay t. makeTaskFixedWindow c s e floorDay = Some t
      \<longrightarrow> From t \<le> To t \<and> To t - From t \<le> 100 \<and> Retry t = 0
          \<and> (Retry t \<le> MaxRetriesPerBlock cfg) = (0 \<le> MaxRetriesPerBlock cfg))
 \<and> (\<forall>yday coins maxDates. \<forall>t \<in> set (BuildIncrementalTasks cfg yday coins maxDates).
      From t \<le> To t \<and> To t - From t \<le> 100 \<and> Retry t = 0
      \<and> (Retry t \<le> MaxRetriesPerBlock cfg) = (0 \<le> MaxRetriesPerBlock cfg))
 \<and> (\<forall>s res. From (Task res) \<le> To (Task res) \<and> To (Task res) - From (Task res) \<le> 100
      \<longrightarrow> (\<forall>t \<in> set (pending (backfillOnResult cfg s res)).
             t \<in> set (pending s)
             \<or> (From t \<le> To t \<and> To t - From t \<le> 100
                \<and> Retry t \<le> MaxRetriesPerBlock cfg)))
 \<and> (\<forall>q res. From (Task res) \<le> To (Task res) \<and> To (Task res) - From (Task res) \<le> 100
      \<longrightarrow> (\<forall>t \<in> set (fst (incrementalOnResult cfg q res)).
             t \<in> set (fst q)
             \<or> (From t \<le> To t \<and> To t - From t \<le> 100
                \<and> Retry t \<le> MaxRetriesPerBlock cfg)))"
proof -
  have a: "From t \<le> To t \<and> To t - From t \<le> 100 \<and> Retry t = 0
           \<and> (Retry t \<le> MaxRetriesPerBlock cfg) = (0 \<le> MaxRetriesPerBlock cfg)"
    if "makeTaskFixedWindow c s e floorDay = Some t" for c s e floorDay and t :: Task
    using makeTaskFixedWindow_fields [OF that] by simp
  have b: "From t \<le> To t \<and> To t - From t \<le> 100 \<and> Retry t = 0
           \<and> (Retry t \<le> MaxRetriesPerBlock cfg) = (0 \<le> MaxRetriesPerBlock cfg)"
    if "t \<in> set (BuildIncrementalTasks cfg yday coins maxDates)"
    for yday coins maxDates and t :: Task
    using BuildIncrementalTasks_fields [OF that] by simp
  have c: "t \<in> set (pending s)
        \<or> (From t \<le> To t \<and> To t - From t \<le> 100 \<and> Retry t \<le> MaxRetriesPerBlock cfg)"
    if "From (Task res) \<le> To (Task res) \<and> To (Task res) - From (Task res) \<le> 100"
      and "t \<in> set (pending (backfillOnResult cfg s res))"
    for s :: Sched and res :: TaskResult and t :: Task
    using backfillOnResult_pending [of cfg s res] that by auto
  have d: "t \<in> set (fst q)
        \<or> (From t \<le> To t \<and> To t - From t \<le> 100 \<and> Retry t \<le> MaxRetriesPerBlock cfg)"
    if "From (Task res) \<le> To (Task res) \<and> To (Task res) - From (Task res) \<le> 100"
      and "t \<in> set (fst (incrementalOnResult cfg q res))"
    for q :: "Task list \<times> int" and res :: TaskResult and t :: Task
    using incrementalOnResult_pending [of cfg q res] that by auto
  from a b c d show ?thesis by blast
qed

theorem task_invariant_witness:
  "makeTaskFixedWindow ''bitcoin'' ''BTC'' 20500 (StartDate cfgDefault) = Some taskBtc
   \<and> From taskBtc \<le> To taskBtc \<and> To taskBtc - From taskBtc \<le> 100
   \<and> Retry taskBtc = 0 \<and> Retry taskBtc \<le> MaxRetriesPerBlock cfgDefault
   \<and> \<not> Retry taskBtc \<le> MaxRetriesPerBlock cfgNegativeRetries
   \<and> taskBtc\<lparr>Retry := 1\<rparr>
       \<in> set (fst (incrementalOnResult cfgDefault ([], 1)
                     (result (handleTask cfgDefault envGap taskBtc))))
   \<and> Retry (taskBtc\<lparr>Retry := 1\<rparr>) \<le> MaxRetriesPerBlock cfgDefault"
proof -
  let ?res = "result (handleTask cfgDefault envGap taskBtc)"
  let ?rt = "taskBtc\<lparr>Retry := 1\<rparr>"
  have mx: "0 \<le> MaxRetriesPerBlock cfgDefault" "\<not> 0 \<le> MaxRetriesPerBlock cfgNegativeRetries"
    by (simp_all add: cfgDefault_def cfgNegativeRetries_def)
  have mr: "MaxRetriesPerBlock cfgDefault = 3"
    by (simp add: cfgDefault_def)
  have mk: "makeTaskFixedWindow ''bitcoin'' ''BTC'' 20500 (StartDate cfgDefault) = Some taskBtc"
    by (simp add: makeTaskFixedWindow_def cfgDefault_def taskBtc_def dateOnlyUTC_def
        AddDate_def Let_def)
  from task_invariant [of cfgDefault] mk
  have f1: "From taskBtc \<le> To taskBtc \<and> To taskBtc - From taskBtc \<le> 100 \<and> Retry taskBtc = 0
            \<and> (Retry taskBtc \<le> MaxRetriesPerBlock cfgDefault)
                = (0 \<le> MaxRetriesPerBlock cfgDefault)"
    by blast
  from task_invariant [of cfgNegativeRetries] mk
  have f2: "(Retry taskBtc \<le> MaxRetriesPerBlock cfgNegativeRetries)
              = (0 \<le> MaxRetriesPerBlock cfgNegativeRetries)"
    by blast
  have w: "From (Task ?res) \<le> To (Task ?res) \<and> To (Task ?res) - From (Task ?res) \<le> 100"
    by (simp add: handleTask_gap taskBtc_fields)
  have q: "fst (incrementalOnResult cfgDefault ([], 1) ?res) = [?rt]"
    using mr by (simp add: handleTask_gap incrementalOnResult_def taskBtc_fields Let_def)
  then have m: "?rt \<in> set (fst (incrementalOnResult cfgDefault ([], 1) ?res))"
    by simp
  note inst = task_invariant [of cfgDefault, THEN conjunct2, THEN conjunct2, THEN conjunct2,
      THEN spec, THEN spec, THEN mp, OF w, THEN bspec, OF m]
  from inst have f3: "Retry ?rt \<le> MaxRetriesPerBlock cfgDefault"
    by simp
  from mk f1 f2 f3 m mx show ?thesis by simp
qed

text \<open>
  Claim C4 as stated fails for a negative \<^verbatim>\<open>MaxRetriesPerBlock\<close>, which \<^verbatim>\<open>LoadConfig\<close> accepts:
  with the value \<open>-1\<close> the backfill window of 2026-02-16 is built with retry count 0, above
  the configured maximum.
\<close>

theorem task_retry_bound_counterexample:
  "makeTaskFixedWindow ''bitcoin'' ''BTC'' 20500 (StartDate cfgNegativeRetries) = Some taskBtc
   \<and> \<not> Retry taskBtc \<le> MaxRetriesPerBlock cfgNegativeRetries"
  by (simp add: makeTaskFixedWindow_def cfgNegativeRetries_def cfgDefault_def taskBtc_def
      dateOnlyUTC_def AddDate_def Let_def)

text \<open>
  Claim C5. For a task with retry count 0 and \<open>From \<le> To\<close>, when the store holds every day of
  the window and answers the query for the present days, \<^verbatim>\<open>handleTask\<close> returns the result
  with 0 inserted, \<^verbatim>\<open>Empty\<close> false and status 200, without calling \<^verbatim>\<open>MarketChartRange\<close> or
  \<^verbatim>\<open>insertDailyPoints\<close>.
\<close>

theorem fast_path_skip:
  assumes "Retry t = 0" and "From t \<le> To t"
    and "envExisting1 env = selectExistingDays stored (From t) (To t)"
    and "\<forall>d. From t \<le> d \<and> d \<le> To t \<longrightarrow> d \<in> set stored"
  shows "handleTask cfg env t =
           \<lparr>result = \<lparr>Task = t, Inserted = 0, APIDays = 0, Empty = False, HTTPStatus = 200,
                       Err = [], MissingDates = [], ActiveNow = False\<rparr>,
            apiCalls = 0, insertArg = None\<rparr>"
proof -
  have "set (remdups (filter (\<lambda>d. From t \<le> d \<and> d \<le> To t) stored)) = {From t..To t}"
    using assms(4) by auto
  with assms(3) have "fastPath env t"
    unfolding selectExistingDays_def by (intro fastPath_covered [OF assms(1,2)])
  then show ?thesis by (rule handleTask_fast)
qed

theorem fast_path_skip_witness:
  "Retry taskShort = 0 \<and> From taskShort \<le> To taskShort
   \<and> envExisting1 envCovered = selectExistingDays storedDays (From taskShort) (To taskShort)
   \<and> {From taskShort..To taskShort} \<subseteq> set storedDays
   \<and> Inserted (result (handleTask cfgDefault envCovered taskShort)) = 0
   \<and> \<not> Empty (result (handleTask cfgDefault envCovered taskShort))
   \<and> apiCalls (handleTask cfgDefault envCovered taskShort) = 0"
proof -
  have h1: "Retry taskShort = 0" and h2: "From taskShort \<le> To taskShort"
    and h3: "envExisting1 envCovered
               = selectExistingDays storedDays (From taskShort) (To taskShort)"
    by (simp_all add: task_fields env_fields)
  have h4: "\<forall>d. From taskShort \<le> d \<and> d \<le> To taskShort \<longrightarrow> d \<in> set storedDays"
  proof (intro allI impI)
    fix d :: int assume "From taskShort \<le> d \<and> d \<le> To taskShort"
    then have "d = 20498 \<or> d = 20499 \<or> d = 20500" by (simp add: task_fields) arith
    then show "d \<in> set storedDays" by (auto simp add: storedDays_def)
  qed
  from h4 have h5: "{From taskShort..To taskShort} \<subseteq> set storedDays" by auto
  from fast_path_skip [OF h1 h2 h3 h4, of cfgDefault] h1 h2 h3 h5
  show ?thesis by simp
qed

text \<open>
  Claim C6. The retryable statuses are 0, 408, 425, 429, 500, 502, 503 and 504. In the fetch
  loop of \<^verbatim>\<open>handleTask\<close> an attempt \<open>k\<close> is followed by another one only when it failed with a
  retryable status and \<open>k\<close> is below \<^verbatim>\<open>MaxRetriesPerBlock\<close>. When an attempt that was made
  fails with another status, or fails as attempt number \<^verbatim>\<open>MaxRetriesPerBlock\<close>, it is the last
  one, and the result has \<^verbatim>\<open>Empty\<close> true, the error and the truncated body as error text (not
  empty), no inserted and no API days, and \<^verbatim>\<open>insertDailyPoints\<close> is not called.
\<close>

theorem fetch_retry_policy:
  "(\<forall>code. isRetryableStatus code \<longleftrightarrow> code \<in> {0, 408, 425, 429, 500, 502, 503, 504})
 \<and> (\<forall>k. 0 \<le> k \<and> k + 1 < int (apiCalls (handleTask cfg env t))
        \<longrightarrow> err (envFetch env k) \<noteq> None
          \<and> isRetryableStatus (status (envFetch env k))
          \<and> k < MaxRetriesPerBlock cfg)
 \<and> (\<forall>k e. 0 \<le> k \<and> k < int (apiCalls (handleTask cfg env t))
        \<and> err (envFetch env k) = Some e
        \<and> (\<not> isRetryableStatus (status (envFetch env k)) \<or> k = MaxRetriesPerBlock cfg)
        \<longrightarrow> handleTask cfg env t =
              \<lparr>result = \<lparr>Task = t, Inserted = 0, APIDays = 0, Empty = True,
                          HTTPStatus = status (envFetch env k),
                          Err = e @ ''; body='' @ truncateBody (body (envFetch env k)) 300,
                          MissingDates = [], ActiveNow = False\<rparr>,
               apiCalls = nat (k + 1), insertArg = None\<rparr>
          \<and> Err (result (handleTask cfg env t)) \<noteq> [])"
proof -
  let ?fl = "fetchLoop cfg (envFetch env) 0 zeroReply 0"
  have retried: "err (envFetch env k) \<noteq> None \<and> isRetryableStatus (status (envFetch env k))
                 \<and> k < MaxRetriesPerBlock cfg"
    if "0 \<le> k \<and> k + 1 < int (apiCalls (handleTask cfg env t))" for k
  proof -
    from that have nf: "\<not> fastPath env t" by (auto simp add: handleTask_apiCalls split: if_splits)
    with that have "int 0 + (k - 0) + 1 < int (snd ?fl)" by (simp add: handleTask_apiCalls)
    with that show ?thesis by (intro fetchLoop_retried [where a = 0 and calls = 0]) simp_all
  qed
  have final: "handleTask cfg env t =
              \<lparr>result = \<lparr>Task = t, Inserted = 0, APIDays = 0, Empty = True,
                          HTTPStatus = status (envFetch env k),
                          Err = e @ ''; body='' @ truncateBody (body (envFetch env k)) 300,
                          MissingDates = [], ActiveNow = False\<rparr>,
               apiCalls = nat (k + 1), insertArg = None\<rparr>
          \<and> Err (result (handleTask cfg env t)) \<noteq> []"
    if h: "0 \<le> k \<and> k < int (apiCalls (handleTask cfg env t))
        \<and> err (envFetch env k) = Some e
        \<and> (\<not> isRetryableStatus (status (envFetch env k)) \<or> k = MaxRetriesPerBlock cfg)"
    for k e
  proof -
    from h have nf: "\<not> fastPath env t" by (auto simp add: handleTask_apiCalls split: if_splits)
    then have n: "apiCalls (handleTask cfg env t) = snd ?fl" by (simp add: handleTask_apiCalls)
    have "\<not> k + 1 < int (snd ?fl)"
    proof
      assume "k + 1 < int (snd ?fl)"
      then have "0 \<le> k \<and> k + 1 < int (apiCalls (handleTask cfg env t))" using h n by simp
      from retried [OF this] h show False by simp
    qed
    with h n have k: "int (snd ?fl) = k + 1" by simp
    then have "0 < snd ?fl" using h by simp
    from fetchLoop_last [OF this] k have r: "fst ?fl = envFetch env k" by simp
    have e: "err (fst ?fl) = Some e" using r h by simp
    have "nat (k + 1) = snd ?fl" using k by simp
    then show ?thesis
      unfolding handleTask_slow [OF nf] handleFetched_error [OF e] r by simp
  qed
  from isRetryableStatus_iff retried final show ?thesis by blast
qed

theorem fetch_retry_policy_witness:
  "(0::int) \<le> 0 \<and> (0::int) + 1 < int (apiCalls (handleTask cfgDefault envFlaky taskBtc))
   \<and> isRetryableStatus (status (envFetch envFlaky 0))
   \<and> (0::int) \<le> 1 \<and> 1 < int (apiCalls (handleTask cfgDefault envFlaky taskBtc))
   \<and> err (envFetch envFlaky 1) = Some ''http 404: no coin''
   \<and> \<not> isRetryableStatus (status (envFetch envFlaky 1))
   \<and> handleTask cfgDefault envFlaky taskBtc =
        \<lparr>result = \<lparr>Task = taskBtc, Inserted = 0, APIDays = 0, Empty = True, HTTPStatus = 404,
                    Err = ''http 404: no coin; body=no coin'',
                    MissingDates = [], ActiveNow = False\<rparr>,
         apiCalls = 2, insertArg = None\<rparr>
   \<and> (0::int) \<le> 3 \<and> 3 < int (apiCalls (handleTask cfgDefault envBusy taskBtc))
   \<and> err (envFetch envBusy 3) = Some ''http 503: busy''
   \<and> 3 = MaxRetriesPerBlock cfgDefault
   \<and> handleTask cfgDefault envBusy taskBtc =
        \<lparr>result = \<lparr>Task = taskBtc, Inserted = 0, APIDays = 0, Empty = True, HTTPStatus = 503,
                    Err = ''http 503: busy; body=busy'',
                    MissingDates = [], ActiveNow = False\<rparr>,
         apiCalls = 4, insertArg = None\<rparr>"
proof -
  have w: "From taskBtc \<le> To taskBtc" by (simp add: taskBtc_def)
  have mx: "MaxRetriesPerBlock cfgDefault = 3" by (simp add: cfgDefault_def)
  have c1: "apiCalls (handleTask cfgDefault envFlaky taskBtc) = 2"
    using not_fastPath_empty_store [OF envFlaky_fields(1) w]
    by (simp add: handleTask_apiCalls fetchLoop_flaky)
  have c2: "apiCalls (handleTask cfgDefault envBusy taskBtc) = 4"
    using not_fastPath_empty_store [OF envBusy_fields(1) w]
    by (simp add: handleTask_apiCalls fetchLoop_busy)
  have h1: "(0::int) \<le> 1 \<and> 1 < int (apiCalls (handleTask cfgDefault envFlaky taskBtc))
      \<and> err (envFetch envFlaky 1) = Some ''http 404: no coin''
      \<and> (\<not> isRetryableStatus (status (envFetch envFlaky 1)) \<or> 1 = MaxRetriesPerBlock cfgDefault)"
    by (simp add: c1 envFlaky_fields reply_errors isRetryableStatus_def)
  have h2: "(0::int) \<le> 3 \<and> 3 < int (apiCalls (handleTask cfgDefault envBusy taskBtc))
      \<and> err (envFetch envBusy 3) = Some ''http 503: busy''
      \<and> (\<not> isRetryableStatus (status (envFetch envBusy 3)) \<or> 3 = MaxRetriesPerBlock cfgDefault)"
    by (simp add: c2 envBusy_fields reply_errors mx)
  have h0: "(0::int) \<le> 0 \<and> (0::int) + 1 < int (apiCalls (handleTask cfgDefault envFlaky taskBtc))"
    by (simp add: c1)
  from fetch_retry_policy [of cfgDefault envFlaky taskBtc] h0
  have r0: "isRetryableStatus (status (envFetch envFlaky 0))" by blast
  from fetch_retry_policy [of cfgDefault envFlaky taskBtc] h1
  have r1: "handleTask cfgDefault envFlaky taskBtc =
        \<lparr>result = \<lparr>Task = taskBtc, Inserted = 0, APIDays = 0, Empty = True,
                    HTTPStatus = status (envFetch envFlaky 1),
                    Err = ''http 404: no coin'' @ ''; body=''
                            @ truncateBody (body (envFetch envFlaky 1)) 300,
                    MissingDates = [], ActiveNow = False\<rparr>,
         apiCalls = nat (1 + 1), insertArg = None\<rparr>"
    by blast
  from fetch_retry_policy [of cfgDefault envBusy taskBtc] h2
  have r2: "handleTask cfgDefault envBusy taskBtc =
        \<lparr>result = \<lparr>Task = taskBtc, Inserted = 0, APIDays = 0, Empty = True,
                    HTTPStatus = status (envFetch envBusy 3),
                    Err = ''http 503: busy'' @ ''; body=''
                            @ truncateBody (body (envFetch envBusy 3)) 300,
                    MissingDates = [], ActiveNow = False\<rparr>,
         apiCalls = nat (3 + 1), insertArg = None\<rparr>"
    by blast
  show ?thesis
    using h0 h1 h2 r0
    by (simp add: r1 r2 envFlaky_fields envBusy_fields reply_errors truncateBody_def
        mx isRetryableStatus_def)
qed

text \<open>
  Claim C7. The aggregation of \<^verbatim>\<open>handleTask\<close> yields at most one record per UTC day (the keys
  of \<^verbatim>\<open>byDay\<close> are distinct). For every day \<open>d\<close>: when none of the three series has a sample on
  \<open>d\<close> there is no record; otherwise the record's timestamp is the latest instant among the
  samples of \<open>d\<close> in the three series, and each metric holds the value of the last sample of
  its series on \<open>d\<close>, in the order of the series (0, the initial value, when its series has no
  sample on \<open>d\<close>).
\<close>

theorem aggregate_per_day:
  "distinct (map fst (aggregate r))
   \<and> map_of (aggregate r) d =
       (let ps = daySamples d (Prices r);
            ms = daySamples d (MarketCaps r);
            vs = daySamples d (TotalVolumes r)
        in if ps @ ms @ vs = [] then None
           else Some \<lparr>a_ts = Max (fst ` set (ps @ ms @ vs)),
                      a_p = lastValue ps, a_mc = lastValue ms, a_v = lastValue vs\<rparr>)"
  by (simp add: aggregate_distinct aggregate_map_of dayRecord_def Let_def)

theorem aggregate_per_day_witness:
  "aggregate (resp replyOneDayTwice) =
     [(20500, \<lparr>a_ts = 1771203600000, a_p = 11, a_mc = 5, a_v = 0\<rparr>)]
   \<and> daySamples 20500 (Prices (resp replyOneDayTwice))
       = [(1771203600000, 10), (1771200000000, 11)]
   \<and> map_of (aggregate (resp replyOneDayTwice)) 20499 = None"
proof -
  have ev: "aggregate (resp replyOneDayTwice) =
     [(20500, \<lparr>a_ts = 1771203600000, a_p = 11, a_mc = 5, a_v = 0\<rparr>)]"
    by (simp add: replyOneDayTwice_def aggregate_def applyRows_def applyRow_def applySample_def
        int64_of_def day_of_def Let_def)
  have ds: "daySamples 20500 (Prices (resp replyOneDayTwice))
       = [(1771203600000, 10), (1771200000000, 11)]"
    "daySamples 20499 (Prices (resp replyOneDayTwice)) = []"
    "daySamples 20499 (MarketCaps (resp replyOneDayTwice)) = []"
    "daySamples 20499 (TotalVolumes (resp replyOneDayTwice)) = []"
    by (simp_all add: replyOneDayTwice_def daySamples_def samplesOf_def int64_of_def day_of_def)
  from aggregate_per_day [of "resp replyOneDayTwice" 20499]
  have "map_of (aggregate (resp replyOneDayTwice)) 20499 = None"
    by (simp add: ds)
  with ev ds show ?thesis by simp
qed

text \<open>
  Claim C8, as amended. \<^verbatim>\<open>BuildIncrementalTasks\<close> appends the tasks of each active coin in
  turn. For a coin that the allow-list does not reject and whose trimmed id and trimmed
  symbol are not empty, with a recorded maximum day \<open>m\<close> before yesterday, these tasks are not
  empty, each spans at most 100 days, each starts on the day after the one before ends (so
  no two overlap), and together they cover exactly the days from \<open>m + 1\<close> to yesterday. A
  coin without a recorded maximum day, or with one at or after yesterday, gets no task.
\<close>

theorem incremental_windows:
  "BuildIncrementalTasks cfg yday coins maxDates
     = concat (map (coinIncTasks cfg yday maxDates) coins)
   \<and> (\<forall>c m.
        \<not> filterRejects cfg (Coin.ID c) \<and> TrimSpace (Coin.ID c) \<noteq> []
        \<and> TrimSpace (Coin.Symbol c) \<noteq> []
        \<and> maxDates (TrimSpace (Coin.ID c)) = Some m \<and> m < yday
        \<longrightarrow> coinIncTasks cfg yday maxDates c \<noteq> []
          \<and> (\<forall>t \<in> set (coinIncTasks cfg yday maxDates c).
                CoinID t = TrimSpace (Coin.ID c) \<and> From t \<le> To t \<and> To t - From t < 100)
          \<and> successively (\<lambda>a b. From b = To a + 1) (coinIncTasks cfg yday maxDates c)
          \<and> sorted_wrt (\<lambda>a b. To a < From b) (coinIncTasks cfg yday maxDates c)
          \<and> (\<Union>t \<in> set (coinIncTasks cfg yday maxDates c). {From t..To t}) = {m + 1..yday})
   \<and> (\<forall>c. maxDates (TrimSpace (Coin.ID c)) = None
            \<or> (\<exists>m. maxDates (TrimSpace (Coin.ID c)) = Some m \<and> yday \<le> m)
        \<longrightarrow> coinIncTasks cfg yday maxDates c = [])"
proof -
  have windows: "coinIncTasks cfg yday maxDates c \<noteq> []
          \<and> (\<forall>t \<in> set (coinIncTasks cfg yday maxDates c).
                CoinID t = TrimSpace (Coin.ID c) \<and> From t \<le> To t \<and> To t - From t < 100)
          \<and> successively (\<lambda>a b. From b = To a + 1) (coinIncTasks cfg yday maxDates c)
          \<and> sorted_wrt (\<lambda>a b. To a < From b) (coinIncTasks cfg yday maxDates c)
          \<and> (\<Union>t \<in> set (coinIncTasks cfg yday maxDates c). {From t..To t}) = {m + 1..yday}"
    if h: "\<not> filterRejects cfg (Coin.ID c) \<and> TrimSpace (Coin.ID c) \<noteq> []
        \<and> TrimSpace (Coin.Symbol c) \<noteq> []
        \<and> maxDates (TrimSpace (Coin.ID c)) = Some m \<and> m < yday"
    for c :: Coin and m :: int
  proof -
    let ?ws = "incWindows (TrimSpace (Coin.ID c)) (ToUpper (TrimSpace (Coin.Symbol c)))
                 (m + 1) yday"
    have eq: "coinIncTasks cfg yday maxDates c = ?ws"
      using h by (intro coinIncTasks_windows) (simp_all add: ToUpper_empty)
    have le: "m + 1 \<le> yday" using h by simp
    show ?thesis
    proof (intro conjI ballI)
      show "coinIncTasks cfg yday maxDates c \<noteq> []"
        unfolding eq using incWindows_hd [OF le] by simp
      show "successively (\<lambda>a b. From b = To a + 1) (coinIncTasks cfg yday maxDates c)"
        unfolding eq by (rule incWindows_successively)
      show "sorted_wrt (\<lambda>a b. To a < From b) (coinIncTasks cfg yday maxDates c)"
        unfolding eq by (rule incWindows_sorted_wrt)
      show "(\<Union>t \<in> set (coinIncTasks cfg yday maxDates c). {From t..To t}) = {m + 1..yday}"
        unfolding eq by (rule incWindows_union)
    next
      fix t assume "t \<in> set (coinIncTasks cfg yday maxDates c)"
      then have t: "t \<in> set ?ws" unfolding eq .
      from incWindows_fields [OF t]
      show "CoinID t = TrimSpace (Coin.ID c)" "From t \<le> To t" "To t - From t < 100"
        by simp_all
    qed
  qed
  have none: "coinIncTasks cfg yday maxDates c = []"
    if "maxDates (TrimSpace (Coin.ID c)) = None
            \<or> (\<exists>m. maxDates (TrimSpace (Coin.ID c)) = Some m \<and> yday \<le> m)"
    for c :: Coin
    using that by (rule coinIncTasks_none)
  from BuildIncrementalTasks_concat [of cfg yday coins maxDates] windows none
  show ?thesis by blast
qed

theorem incremental_windows_witness:
  "\<not> filterRejects cfgDefault (Coin.ID coinBtc) \<and> TrimSpace (Coin.ID coinBtc) \<noteq> []
   \<and> TrimSpace (Coin.Symbol coinBtc) \<noteq> []
   \<and> maxDatesBtc (TrimSpace (Coin.ID coinBtc)) = Some 20250 \<and> (20250 :: int) < 20500
   \<and> BuildIncrementalTasks cfgDefault 20500 [coinBtc] maxDatesBtc
       = coinIncTasks cfgDefault 20500 maxDatesBtc coinBtc
   \<and> (\<Union>t \<in> set (BuildIncrementalTasks cfgDefault 20500 [coinBtc] maxDatesBtc).
         {From t..To t}) = {20251..20500}
   \<and> map (\<lambda>t. (From t, To t)) (BuildIncrementalTasks cfgDefault 20500 [coinBtc] maxDatesBtc)
       = [(20251, 20350), (20351, 20450), (20451, 20500)]"
proof -
  have h: "\<not> filterRejects cfgDefault (Coin.ID coinBtc) \<and> TrimSpace (Coin.ID coinBtc) \<noteq> []
     \<and> TrimSpace (Coin.Symbol coinBtc) \<noteq> []
     \<and> maxDatesBtc (TrimSpace (Coin.ID coinBtc)) = Some 20250 \<and> (20250 :: int) < 20500"
    by (simp add: filterRejects_def cfgDefault_def coinBtc_def TrimSpace_bitcoin TrimSpace_btc
        maxDatesBtc_def)
  note inst = incremental_windows [of cfgDefault 20500 "[coinBtc]" maxDatesBtc]
  from inst have b: "BuildIncrementalTasks cfgDefault 20500 [coinBtc] maxDatesBtc
       = coinIncTasks cfgDefault 20500 maxDatesBtc coinBtc"
    by simp
  from inst h have u: "(\<Union>t \<in> set (coinIncTasks cfgDefault 20500 maxDatesBtc coinBtc).
         {From t..To t}) = {20250 + 1..20500}"
    by blast
  have ws: "coinIncTasks cfgDefault 20500 maxDatesBtc coinBtc
              = incWindows ''bitcoin'' ''BTC'' 20251 20500"
    using h by (simp add: coinIncTasks_def coinBtc_def TrimSpace_bitcoin TrimSpace_btc
        ToUpper_btc maxDatesBtc_def dateOnlyUTC_def AddDate_def Let_def)
  have ev: "map (\<lambda>t. (From t, To t)) (incWindows ''bitcoin'' ''BTC'' 20251 20500)
              = [(20251, 20350), (20351, 20450), (20451, 20500)]"
    by (simp add: incWindows_step incWindows_empty)
  from h b u ws ev show ?thesis by simp
qed

text \<open>
  Claim C8 as stated fails for an active coin that the guards of the loop skip: a coin with
  an empty symbol and a recorded maximum day before yesterday gets no task.
\<close>

theorem incremental_guard_counterexample:
  "maxDatesBtc (TrimSpace (Coin.ID coinNoSymbol)) = Some 20250 \<and> (20250 :: int) < 20500
   \<and> BuildIncrementalTasks cfgDefault 20500 [coinNoSymbol] maxDatesBtc = []"
  by (simp add: BuildIncrementalTasks_def coinIncTasks_def coinNoSymbol_def maxDatesBtc_def
      TrimSpace_bitcoin filterRejects_def cfgDefault_def TrimSpace_def isSpace_def
      ToUpper_def Let_def)

text \<open>
  Claim C9, as amended. The result of \<^verbatim>\<open>handleTask\<close> has \<^verbatim>\<open>ActiveNow\<close> true exactly when the
  insert was reached and succeeded, the task's \<open>To\<close> date is later than the day two days
  before yesterday (at most one day before yesterday), and the latest aggregated day is on
  or after the day two days before yesterday.
\<close>

theorem active_now_rule:
  "ActiveNow (result (handleTask cfg env t)) \<longleftrightarrow>
     (\<exists>pts. insertArg (handleTask cfg env t) = Some pts
            \<and> snd (insertDailyPoints (envInsert env) pts) = None)
     \<and> envYesterday env - 2 < To t
     \<and> envYesterday env - 2
         \<le> Max (fst ` set (aggregate (resp (fst (fetchLoop cfg (envFetch env) 0 zeroReply 0)))))"
proof (cases "insertArg (handleTask cfg env t)")
  case None
  then have "\<not> ActiveNow (result (handleTask cfg env t))"
    by (cases "fastPath env t")
       (simp_all add: handleTask_fast handleTask_slow handleFetched_no_insert)
  with None show ?thesis by simp
next
  case (Some pts)
  note path = handleTask_insertArg [OF Some]
  let ?byDay = "aggregate (resp (fst (fetchLoop cfg (envFetch env) 0 zeroReply 0)))"
  let ?ex = "existingForDiff env (fst (getExistingDays (envExisting1 env)))"
  show ?thesis
  proof (cases "snd (insertDailyPoints (envInsert env) pts)")
    case None
    then have ok: "snd (insertDailyPoints (envInsert env) (toInsertOf cfg t ?byDay ?ex)) = None"
      using path(4) by simp
    have "ActiveNow (result (handleTask cfg env t))
            = activeNowOf (envYesterday env) t (apiDaysOf ?byDay)"
      unfolding path(5) handleStore_insert_ok [OF ok] by simp
    with None Some activeNowOf_iff [OF path(3)] show ?thesis by simp
  next
    case (Some e)
    then have bad: "snd (insertDailyPoints (envInsert env) (toInsertOf cfg t ?byDay ?ex)) = Some e"
      using path(4) by simp
    have "\<not> ActiveNow (result (handleTask cfg env t))"
      unfolding path(5) handleStore_insert_failed [OF bad] by simp
    with Some \<open>insertArg (handleTask cfg env t) = Some pts\<close> show ?thesis by simp
  qed
qed

theorem active_now_rule_witness:
  "ActiveNow (result (handleTask cfgDefault envGap taskBtc))
   \<and> envYesterday envGap - 2 < To taskBtc
   \<and> \<not> ActiveNow (result (handleTask cfgDefault envOldDay taskOlder))
   \<and> \<not> envYesterday envOldDay - 2 < To taskOlder"
  using active_now_rule [of cfgDefault envGap taskBtc]
    active_now_rule [of cfgDefault envOldDay taskOlder]
  by (simp add: handleTask_gap handleTask_oldDay envGap_fields(1) env_fields(11) task_fields
      taskBtc_fields)

text \<open>
  Claim C9 as stated fails: the two tests differ. With a \<open>To\<close> date two days before
  yesterday and the latest aggregated day two days before yesterday, after a successful
  insert, \<^verbatim>\<open>ActiveNow\<close> is false; with the same latest aggregated day and a \<open>To\<close> date of
  yesterday it is true. And when the insert fails, \<^verbatim>\<open>ActiveNow\<close> is false even with a \<open>To\<close>
  date and a latest aggregated day of yesterday.
\<close>

theorem active_now_counterexample:
  "To taskOlder = envYesterday envOldDay - 2
   \<and> apiDaysOf (aggregate (resp (fst (fetchLoop cfgDefault (envFetch envOldDay) 0 zeroReply 0))))
       = [envYesterday envOldDay - 2]
   \<and> Err (result (handleTask cfgDefault envOldDay taskOlder)) = []
   \<and> Inserted (result (handleTask cfgDefault envOldDay taskOlder)) = 1
   \<and> \<not> ActiveNow (result (handleTask cfgDefault envOldDay taskOlder))
   \<and> To taskBtc = envYesterday envOldDay
   \<and> ActiveNow (result (handleTask cfgDefault envOldDay taskBtc))
   \<and> To taskBtc = envYesterday envInsertDown
   \<and> last (apiDaysOf (aggregate (resp (fst (fetchLoop cfgDefault (envFetch envInsertDown) 0
               zeroReply 0))))) = envYesterday envInsertDown
   \<and> \<not> ActiveNow (result (handleTask cfgDefault envInsertDown taskBtc))"
proof -
  have api: "apiDaysOf (aggregate (resp (fst (fetchLoop cfgDefault (envFetch envOldDay) 0
         zeroReply 0)))) = [20498]"
    by (simp add: fetch_constant_ok [OF env_fields(13) reply_ok(2)] aggregate_oldDay
        apiDaysOf_def)
  have api3: "apiDaysOf (aggregate (resp (fst (fetchLoop cfgDefault (envFetch envInsertDown) 0
         zeroReply 0)))) = [20498, 20499, 20500]"
    by (simp add: fetch_constant_ok [OF envInsertDown_fields(3) reply_ok(1)] aggregate_threeDays
        apiDaysOf_def)
  have a: "To taskOlder - From taskOlder = 99" "To taskBtc - From taskBtc = 99"
    by (simp_all add: task_fields taskBtc_fields)
  show ?thesis
    by (simp add: api api3 handleTask_oldDay [OF a(1)] handleTask_oldDay [OF a(2)]
        handleTask_insertDown env_fields(11) envInsertDown_fields(1) task_fields taskBtc_fields)
qed

text \<open>
  Claim C10. When \<^verbatim>\<open>handleTask\<close> has inserted and the query that verifies the insert fails,
  the result has no missing dates and no error text, whatever the store holds; neither
  scheduler requeues it: the backfill scheduler and the incremental scheduler leave the
  pending queue as it was.
\<close>

theorem verify_failure_not_requeued:
  assumes "insertArg (handleTask cfg env t) = Some pts"
    and "snd (insertDailyPoints (envInsert env) pts) = None"
    and "snd (getExistingDays (envExisting3 env)) \<noteq> None"
  shows "MissingDates (result (handleTask cfg env t)) = []
       \<and> Err (result (handleTask cfg env t)) = []
       \<and> (\<forall>s. pending (backfillOnResult cfg s (result (handleTask cfg env t))) = pending s)
       \<and> (\<forall>q. fst (incrementalOnResult cfg q (result (handleTask cfg env t))) = fst q)"
proof -
  note path = handleTask_insertArg [OF assms(1)]
  have ok: "snd (insertDailyPoints (envInsert env)
              (toInsertOf cfg t (aggregate (resp (fst (fetchLoop cfg (envFetch env) 0 zeroReply 0))))
                 (existingForDiff env (fst (getExistingDays (envExisting1 env)))))) = None"
    using assms(2) path(4) by simp
  have m: "MissingDates (result (handleTask cfg env t)) = []"
    and e: "Err (result (handleTask cfg env t)) = []"
    unfolding path(5) handleStore_insert_ok [OF ok] using assms(3)
    by (auto simp add: missingOf_def)
  from m e backfillOnResult_no_missing [OF m] incrementalOnResult_no_missing [OF m]
  show ?thesis by simp
qed

theorem verify_failure_not_requeued_witness:
  "map (\<lambda>pt. day_of (Timestamp pt))
     (the (insertArg (handleTask cfgDefault envVerifyDown taskBtc))) = [20498, 20499, 20500]
   \<and> snd (insertDailyPoints (envInsert envVerifyDown)
            (the (insertArg (handleTask cfgDefault envVerifyDown taskBtc)))) = None
   \<and> snd (getExistingDays (envExisting3 envVerifyDown)) = Some ''read timeout''
   \<and> MissingDates (result (handleTask cfgDefault envVerifyDown taskBtc)) = []
   \<and> Err (result (handleTask cfgDefault envVerifyDown taskBtc)) = []
   \<and> pending (backfillOnResult cfgDefault schedTwo
                (result (handleTask cfgDefault envVerifyDown taskBtc))) = [taskEth]
   \<and> fst (incrementalOnResult cfgDefault ([taskEth], 1)
             (result (handleTask cfgDefault envVerifyDown taskBtc))) = [taskEth]"
proof -
  let ?pts = "the (insertArg (handleTask cfgDefault envVerifyDown taskBtc))"
  have days: "map (\<lambda>pt. day_of (Timestamp pt)) ?pts = [20498, 20499, 20500]"
    by (simp add: handleTask_verifyDown day_of_def)
  have ia: "insertArg (handleTask cfgDefault envVerifyDown taskBtc) = Some ?pts"
    by (simp add: handleTask_verifyDown)
  have ok: "snd (insertDailyPoints (envInsert envVerifyDown) ?pts) = None"
    by (simp add: env_fields insertDailyPoints_def)
  have down: "snd (getExistingDays (envExisting3 envVerifyDown)) = Some ''read timeout''"
    by (simp add: env_fields getExistingDays_def)
  then have down': "snd (getExistingDays (envExisting3 envVerifyDown)) \<noteq> None" by simp
  from verify_failure_not_requeued [OF ia ok down']
  have "MissingDates (result (handleTask cfgDefault envVerifyDown taskBtc)) = []
        \<and> Err (result (handleTask cfgDefault envVerifyDown taskBtc)) = []
        \<and> pending (backfillOnResult cfgDefault schedTwo
                     (result (handleTask cfgDefault envVerifyDown taskBtc))) = pending schedTwo
        \<and> fst (incrementalOnResult cfgDefault ([taskEth], 1)
                  (result (handleTask cfgDefault envVerifyDown taskBtc))) = fst ([taskEth], 1)"
    by simp
  with days ok down show ?thesis by (simp add: schedTwo_def)
qed

end
